theory Spec2Isabelle
  imports Main "HOL-Library.Sublist" "HOL-Library.AList"
begin

section \<open>JavaScript values and errors\<close>

text \<open>
  The services of the application are JavaScript modules. A value that a document can
  hold is a \<open>jsval\<close>; an absent property (JavaScript's \<open>undefined\<close>) is \<open>None\<close> of
  \<open>jsval option\<close>. Numbers are the integers (the count of a collection, an age, a slider
  position with step 1). A timestamp carries seconds and nanoseconds. An object is a map
  from property names to values when it is a document or an argument, and an association
  list when it is nested inside a value. The object handed to \<open>updateDoc\<close>, whose
  properties the SDK walks through one by one, is the list of its properties (\<open>props\<close>),
  with distinct names, in the order of insertion.
\<close>

datatype jsval =
    VNull
  | VBool bool
  | VNum int
  | VStr string
  | VTime int nat
  | VList "jsval list"
  | VObj "(string \<times> jsval) list"

type_synonym obj = "string \<rightharpoonup> jsval"

type_synonym props = "(string \<times> jsval) list"

text \<open>
  Every \<open>throw\<close> of the code and every rejected promise is the left summand of the
  result. \<open>TypeError\<close> is the engine's own error (calling what is not a function, reading
  a property of \<open>undefined\<close>), \<open>Error\<close> carries the message of a \<open>new Error(message)\<close>
  and \<open>FirestoreError\<close> the code of an error of the database SDK.
\<close>

datatype js_error =
    TypeError
  | Error string
  | FirestoreError string

section \<open>services/auth.js: the one-time password stub\<close>

text \<open>
  \<open>auth.currentUser\<close> is read from the shared \<open>auth\<close> object at the moment an expression
  is evaluated, so the functions below take the \<open>auth\<close> object of that moment as an
  argument. The user is \<open>None\<close> when nobody is signed in (JavaScript's \<open>null\<close>).
\<close>

record 'u auth =
  currentUser :: "'u option"

record 'u credential =
  user :: "'u option"

record 'u confirmation = "'u credential" +
  confirm :: "'u auth \<Rightarrow> string \<Rightarrow> js_error + 'u credential"

text \<open>
  \<open>sendOTP\<close> only prefixes the phone number with \<open>+\<close> for its console line and returns
  the object \<open>{ confirm, user: auth.currentUser }\<close>; it has no \<open>throw\<close> of its own.
\<close>

definition sendOTP_confirm :: "'u auth \<Rightarrow> string \<Rightarrow> js_error + 'u credential" where
  "sendOTP_confirm a code =
     (if code = ''123456'' then Inr \<lparr>user = currentUser a\<rparr>
      else Inl (Error ''Invalid verification code''))"

definition sendOTP :: "'u auth \<Rightarrow> string \<Rightarrow> js_error + 'u confirmation" where
  "sendOTP a phoneNumber =
     (let phoneNumber = (if \<not> prefix ''+'' phoneNumber then ''+'' @ phoneNumber else phoneNumber)
      in Inr \<lparr>user = currentUser a, confirm = sendOTP_confirm\<rparr>)"

definition verifyOTP :: "'u auth \<Rightarrow> 'u confirmation \<Rightarrow> string \<Rightarrow> js_error + 'u option" where
  "verifyOTP a confirmation otp =
     (case confirm confirmation a otp of
        Inl e \<Rightarrow> Inl e
      | Inr result \<Rightarrow> Inr (user result))"

section \<open>JavaScript strings, numbers and truthiness\<close>

text \<open>
  \<open>String(n)\<close> of an integer is its decimal numeral, with a minus sign for a negative
  one.
\<close>

definition digit_char :: "nat \<Rightarrow> char" where
  "digit_char d = ''0123456789'' ! (d mod 10)"

function show_nat :: "nat \<Rightarrow> string" where
  "show_nat n = (if n < 10 then [digit_char n] else show_nat (n div 10) @ [digit_char (n mod 10)])"
  by pat_completeness auto
termination
  by (relation "measure (\<lambda>n. n)") auto

declare show_nat.simps [simp del]

definition show_int :: "int \<Rightarrow> string" where
  "show_int i = (if i < 0 then CHR ''-'' # show_nat (nat (- i)) else show_nat (nat i))"

text \<open>
  \<open>str.padStart(targetLength, padString)\<close>: the pad string is repeated, and cut, to fill
  the missing length on the left; a string that is long enough is returned as it is.
\<close>

definition padStart :: "string \<Rightarrow> nat \<Rightarrow> string \<Rightarrow> string" where
  "padStart str targetLength padString =
     (if targetLength \<le> length str \<or> padString = [] then str
      else take (targetLength - length str)
             (concat (replicate (targetLength - length str) padString)) @ str)"

text \<open>
  \<open>str.split(separator)\<close> with a string separator: the pieces between the occurrences of
  the separator, found from left to right without overlap. The empty separator splits
  into single characters.
\<close>

function splitAcc :: "string \<Rightarrow> string \<Rightarrow> string \<Rightarrow> string list" where
  "splitAcc sep acc [] = [acc]"
| "splitAcc sep acc (c # cs) =
     (if sep \<noteq> [] \<and> prefix sep (c # cs)
      then acc # splitAcc sep [] (drop (length sep) (c # cs))
      else splitAcc sep (acc @ [c]) cs)"
  by pat_completeness auto
termination
  by (relation "measure (\<lambda>(sep, acc, s). length s)") auto

definition split :: "string \<Rightarrow> string \<Rightarrow> string list" where
  "split str separator =
     (if separator = [] then map (\<lambda>c. [c]) str else splitAcc separator [] str)"

fun str_includes :: "string \<Rightarrow> string \<Rightarrow> bool" where
  "str_includes [] sub = (sub = [])"
| "str_includes (c # cs) sub = (prefix sub (c # cs) \<or> str_includes cs sub)"

text \<open>
  Truthiness, as \<open>if (x)\<close>, \<open>x ? a : b\<close> and \<open>x || y\<close> test it: \<open>undefined\<close>, \<open>null\<close>,
  \<open>false\<close>, \<open>0\<close> and the empty string are falsy, every other value is truthy.
\<close>

fun truthy :: "jsval option \<Rightarrow> bool" where
  "truthy None = False"
| "truthy (Some VNull) = False"
| "truthy (Some (VBool b)) = b"
| "truthy (Some (VNum n)) = (n \<noteq> 0)"
| "truthy (Some (VStr s)) = (s \<noteq> [])"
| "truthy (Some (VTime s n)) = True"
| "truthy (Some (VList xs)) = True"
| "truthy (Some (VObj ps)) = True"

definition or_js :: "jsval option \<Rightarrow> jsval option \<Rightarrow> jsval option" where
  "or_js a b = (if truthy a then a else b)"

text \<open>
  The string a template literal \<open>`${x}`\<close> puts in for a value. An array joins its
  elements with commas, \<open>null\<close> elements giving the empty string; a plain object gives
  \<open>[object Object]\<close>; the SDK's timestamp class prints its two fields.
\<close>

fun join :: "string \<Rightarrow> string list \<Rightarrow> string" where
  "join sep [] = []"
| "join sep [x] = x"
| "join sep (x # y # ys) = x @ sep @ join sep (y # ys)"

fun toString :: "jsval \<Rightarrow> string" where
  "toString VNull = ''null''"
| "toString (VBool b) = (if b then ''true'' else ''false'')"
| "toString (VNum n) = show_int n"
| "toString (VStr s) = s"
| "toString (VTime s n) =
     ''Timestamp(seconds='' @ show_int s @ '', nanoseconds='' @ show_nat n @ '')''"
| "toString (VList xs) = join '','' (map (\<lambda>x. if x = VNull then [] else toString x) xs)"
| "toString (VObj ps) = ''[object Object]''"

definition template :: "jsval option \<Rightarrow> string" where
  "template x = (case x of None \<Rightarrow> ''undefined'' | Some v \<Rightarrow> toString v)"

section \<open>The document database\<close>

text \<open>
  The data-access module calls the database SDK (\<open>addDoc\<close>, \<open>setDoc\<close>, \<open>updateDoc\<close>,
  \<open>getDoc\<close>, \<open>getDocs\<close>), which is not part of the repository. It is modelled here as
  the environment of the code. A collection is the list of its documents by id; the
  database maps the path of a collection to it. The world also holds what else the code
  reads from its environment: the server's clock (what the \<open>serverTimestamp()\<close> sentinel
  becomes when a write is committed), the device's clock (\<open>Timestamp.now()\<close>) and year
  (\<open>new Date().getFullYear()\<close>), and the generator of automatic document ids.

  A call to the backend can be rejected. \<open>faults\<close> lists, for the calls to come, the
  error each is rejected with (\<open>None\<close>: the backend serves the call; after the end of the
  list every call is served). \<open>calls\<close> records every call made, in order, with its
  outcome. A rejected call changes no document.

  A query is a collection with a list of constraints. Three things about queries and
  arrays belong to the SDK, the backend and the engine, and the world carries them as they
  are, so that what is proved holds whatever they do: \<open>refuses\<close> is the error, if any,
  with which the SDK refuses a list of constraints on the device (\<open>limit\<close> wants a
  positive number, an \<open>in\<close> filter a non-empty array of a size the SDK allows);
  \<open>answer\<close> is the list of documents the backend returns for a query on a collection;
  \<open>arraySort\<close> is the engine's \<open>Array.prototype.sort\<close> for a comparator, whose result
  the language leaves open for a comparator that is not consistent, and \<open>toNumber\<close> its
  conversion of a value that is not a number to a number (\<open>None\<close> for \<open>NaN\<close>).

  \<open>setDoc\<close> and \<open>addDoc\<close> store the fields under the names given, and all three
  writes store every value as it is given. Left out are the SDK's refusal of data it
  cannot store (for \<open>setDoc\<close> and \<open>addDoc\<close> an empty or reserved field name, for all
  three a value such as an array directly inside an array), its sentinel values other
  than \<open>serverTimestamp()\<close>, and console output.
\<close>

type_synonym coll = "(string \<times> obj) list"

type_synonym docref = "string list \<times> string"

datatype sdk_call = AddDoc | SetDoc | UpdateDoc | GetDoc | GetDocs

datatype constraint =
    Where string string jsval
  | OrderBy string string
  | Limit int

record query =
  source :: "string list"
  constraints :: "constraint list"

record call =
  fn :: sdk_call
  path :: "string list"
  target :: "string option"
  rejected :: "js_error option"

record world =
  colls :: "string list \<Rightarrow> coll"
  serverClock :: jsval
  clientClock :: jsval
  clientYear :: int
  idSource :: "nat \<Rightarrow> string"
  idCount :: nat
  faults :: "js_error option list"
  calls :: "call list"
  refuses :: "constraint list \<Rightarrow> js_error option"
  answer :: "query \<Rightarrow> coll \<Rightarrow> coll"
  arraySort :: "(obj \<Rightarrow> obj \<Rightarrow> int option) \<Rightarrow> obj list \<Rightarrow> obj list"
  toNumber :: "jsval \<Rightarrow> int option"

type_synonym 'a io = "world \<Rightarrow> (js_error + 'a) \<times> world"

text \<open>
  An \<open>async\<close> function either resolves with a value or rejects with an error; \<open>await\<close>
  continues with the value and passes a rejection on. Each function of the module has
  the shape \<open>try { ... } catch (error) { console.error(...); throw error; }\<close>, which
  rethrows the error unchanged.
\<close>

definition resolve :: "'a \<Rightarrow> 'a io" where
  "resolve x w = (Inr x, w)"

definition reject :: "js_error \<Rightarrow> 'a io" where
  "reject e w = (Inl e, w)"

definition await :: "'a io \<Rightarrow> ('a \<Rightarrow> 'b io) \<Rightarrow> 'b io" where
  "await m k w = (case m w of (Inl e, w') \<Rightarrow> (Inl e, w') | (Inr x, w') \<Rightarrow> k x w')"

definition nextFault :: "world \<Rightarrow> js_error option" where
  "nextFault w = (case faults w of [] \<Rightarrow> None | f # fs \<Rightarrow> f)"

definition logCall :: "sdk_call \<Rightarrow> string list \<Rightarrow> string option \<Rightarrow> js_error option \<Rightarrow> world \<Rightarrow> world" where
  "logCall f p t r w =
     w\<lparr>faults := tl (faults w),
       calls := calls w @ [\<lparr>fn = f, path = p, target = t, rejected = r\<rparr>]\<rparr>"

text \<open>
  \<open>doc(firestore, collectionName, id)\<close> builds a document reference without a call to the
  backend. The SDK reads the id as a slash-separated path below the collection: it throws
  a \<open>TypeError\<close> for an id that is not a string, and an \<open>invalid-argument\<close> error for a
  path with an empty segment inside (\<open>//\<close>) or with an odd number of segments in all.
\<close>

definition doc :: "string \<Rightarrow> jsval option \<Rightarrow> js_error + docref" where
  "doc collectionName i =
     (case i of
        Some (VStr p) \<Rightarrow>
          if str_includes p ''//'' then Inl (FirestoreError ''invalid-argument'')
          else (let segments = collectionName # filter (\<lambda>s. s \<noteq> []) (split p ''/'')
                in if even (length segments) then Inr (butlast segments, last segments)
                   else Inl (FirestoreError ''invalid-argument''))
      | _ \<Rightarrow> Inl TypeError)"

definition getDoc :: "docref \<Rightarrow> (string \<times> obj option) io" where
  "getDoc r w =
     (case nextFault w of
        Some e \<Rightarrow> (Inl e, logCall GetDoc (fst r) (Some (snd r)) (Some e) w)
      | None \<Rightarrow> (Inr (snd r, map_of (colls w (fst r)) (snd r)),
                 logCall GetDoc (fst r) (Some (snd r)) None w))"

definition getDocs :: "string list \<Rightarrow> coll io" where
  "getDocs c w =
     (case nextFault w of
        Some e \<Rightarrow> (Inl e, logCall GetDocs c None (Some e) w)
      | None \<Rightarrow> (Inr (colls w c), logCall GetDocs c None None w))"


text \<open>
  \<open>updateDoc\<close> reads each property name of its data as a field path: the name is split
  at the dots, and \<open>a.b\<close> names the field \<open>b\<close> inside the map held by the field \<open>a\<close>.
  On the device, before any call to the backend, it throws \<open>invalid-argument\<close> for a name
  that contains one of the characters \<open>~ * / [ ]\<close>, that has an empty segment (the
  empty name, a dot at either end, two dots in a row), or that has a segment beginning
  and ending with two underscores (the pattern \<open>/^__.*__$/\<close>, whose dot matches no line
  break). The fields are then set one after the other, in the order of the properties;
  setting a path below a field that holds no map puts a new map there. The update is
  rejected with \<open>not-found\<close> when the document does not exist.

  The order matters only when one name reaches into the field that another name sets
  (\<open>a\<close> and \<open>a.b\<close>). What the SDK and the backend do then, and that the server's time
  is set after the other fields, is not claimed here: the theorems about names that a
  caller supplies speak of a field only when no name reaches into it.
\<close>

definition reserved :: "string \<Rightarrow> bool" where
  "reserved segment =
     (4 \<le> length segment \<and> prefix ''__'' segment \<and> suffix ''__'' segment
      \<and> \<not> list_ex (\<lambda>c. c = CHR 0x0A \<or> c = CHR 0x0D) segment)"

definition validFieldPath :: "string \<Rightarrow> bool" where
  "validFieldPath key =
     (\<not> list_ex (\<lambda>c. c \<in> set ''~*/[]'') key
      \<and> list_all (\<lambda>segment. segment \<noteq> [] \<and> \<not> reserved segment) (split key ''.''))"

definition fieldPath :: "string \<Rightarrow> js_error + string list" where
  "fieldPath key =
     (if validFieldPath key then Inr (split key ''.'')
      else Inl (FirestoreError ''invalid-argument''))"

fun parseUpdateData :: "props \<Rightarrow> js_error + (string list \<times> jsval) list" where
  "parseUpdateData [] = Inr []"
| "parseUpdateData ((key, v) # rest) =
     (case fieldPath key of
        Inl e \<Rightarrow> Inl e
      | Inr p \<Rightarrow>
          (case parseUpdateData rest of
             Inl e \<Rightarrow> Inl e
           | Inr parsed \<Rightarrow> Inr ((p, v) # parsed)))"

fun setNested :: "string list \<Rightarrow> jsval \<Rightarrow> props \<Rightarrow> props" where
  "setNested [] v ps = ps"
| "setNested [f] v ps = AList.update f v ps"
| "setNested (f # g # gs) v ps =
     AList.update f
       (VObj (setNested (g # gs) v (case map_of ps f of Some (VObj qs) \<Rightarrow> qs | _ \<Rightarrow> []))) ps"

fun setField :: "string list \<Rightarrow> jsval \<Rightarrow> obj \<Rightarrow> obj" where
  "setField [] v d = d"
| "setField [f] v d = d(f \<mapsto> v)"
| "setField (f # g # gs) v d =
     d(f \<mapsto> VObj (setNested (g # gs) v (case d f of Some (VObj qs) \<Rightarrow> qs | _ \<Rightarrow> [])))"

definition applyFields :: "(string list \<times> jsval) list \<Rightarrow> obj \<Rightarrow> obj" where
  "applyFields parsed d = foldl (\<lambda>d (p, v). setField p v d) d parsed"

text \<open>\<open>topField key\<close> is the field of the document that a property name addresses.\<close>

definition topField :: "string \<Rightarrow> string" where
  "topField key = hd (split key ''.'')"

definition updateDoc :: "docref \<Rightarrow> (jsval \<Rightarrow> props) \<Rightarrow> unit io" where
  "updateDoc r data w =
     (case parseUpdateData (data (serverClock w)) of
        Inl e \<Rightarrow> (Inl e, w)
      | Inr parsed \<Rightarrow>
          (case nextFault w of
             Some e \<Rightarrow> (Inl e, logCall UpdateDoc (fst r) (Some (snd r)) (Some e) w)
           | None \<Rightarrow>
               (case map_of (colls w (fst r)) (snd r) of
                  None \<Rightarrow>
                    (Inl (FirestoreError ''not-found''),
                     logCall UpdateDoc (fst r) (Some (snd r))
                       (Some (FirestoreError ''not-found'')) w)
                | Some d \<Rightarrow>
                    (Inr (),
                     logCall UpdateDoc (fst r) (Some (snd r)) None
                       (w\<lparr>colls := (colls w)(fst r :=
                            AList.update (snd r) (applyFields parsed d) (colls w (fst r)))\<rparr>)))))"

definition addDoc :: "string list \<Rightarrow> (jsval \<Rightarrow> obj) \<Rightarrow> docref io" where
  "addDoc c data w =
     (let newId = idSource w (idCount w);
          w1 = w\<lparr>idCount := Suc (idCount w)\<rparr>
      in case nextFault w of
           Some e \<Rightarrow> (Inl e, logCall AddDoc c (Some newId) (Some e) w1)
         | None \<Rightarrow>
             (case map_of (colls w c) newId of
                Some d \<Rightarrow>
                  (Inl (FirestoreError ''already-exists''),
                   logCall AddDoc c (Some newId) (Some (FirestoreError ''already-exists'')) w1)
              | None \<Rightarrow>
                  (Inr (c, newId),
                   logCall AddDoc c (Some newId) None
                     (w1\<lparr>colls := (colls w)(c :=
                          AList.update newId (data (serverClock w)) (colls w c))\<rparr>))))"

definition Timestamp_now :: "jsval io" where
  "Timestamp_now w = (Inr (clientClock w), w)"

definition getFullYear :: "int io" where
  "getFullYear w = (Inr (clientYear w), w)"


definition query :: "query \<Rightarrow> constraint list \<Rightarrow> query io" where
  "query base queryConstraints w =
     (case refuses w (constraints base @ queryConstraints) of
        Some e \<Rightarrow> (Inl e, w)
      | None \<Rightarrow> (Inr (base\<lparr>constraints := constraints base @ queryConstraints\<rparr>), w))"




definition query_methods :: "string list" where
  "query_methods = [''withConverter'']"

definition call_method :: "query \<Rightarrow> string \<Rightarrow> js_error + query" where
  "call_method q m = (if m \<in> set query_methods then Inr q else Inl TypeError)"

definition query_property :: "query \<Rightarrow> string \<Rightarrow> jsval option" where
  "query_property q n = (if n = ''type'' then Some (VStr ''query'') else None)"

section \<open>services/firestore.js: the data-access functions\<close>

text \<open>
  Arguments are JavaScript values. An id that the code also passes on from a field of a
  document it has read (\<open>getPatient(screeningData.patientId)\<close>) may be \<open>undefined\<close> and is
  a \<open>jsval option\<close>; an object argument is a map from its property names.
  \<open>{ ...a, k: v }\<close> is \<open>a(k \<mapsto> v)\<close>, and \<open>{ k: v, ...a }\<close> is \<open>[k \<mapsto> v] ++ a\<close>.
  An object that ends as the data of an update is the list of its properties:
  \<open>{ ...a, k: v }\<close> is \<open>AList.update k v a\<close>, which keeps the place of a name that \<open>a\<close>
  has and puts a new name last, \<open>{ k: v, ...a }\<close> is \<open>assign [(k, v)] a\<close>, and \<open>a.k\<close>
  is \<open>map_of a k\<close>. (The engine lists names that are array indices before the others;
  the order of the properties bears only on names that reach into one another's field.)
  \<open>or_value a b\<close> is \<open>a || b\<close> for a \<open>b\<close> that is not \<open>undefined\<close>.
\<close>

definition assign :: "props \<Rightarrow> props \<Rightarrow> props" where
  "assign object extra = foldl (\<lambda>object (k, v). AList.update k v object) object extra"


definition of_result :: "js_error + 'a \<Rightarrow> 'a io" where
  "of_result r w = (r, w)"

definition if_truthy :: "jsval option \<Rightarrow> (jsval \<Rightarrow> unit io) \<Rightarrow> unit io" where
  "if_truthy x body =
     (case x of
        None \<Rightarrow> resolve ()
      | Some v \<Rightarrow> if truthy (Some v) then body v else resolve ())"

definition generatePatientId :: "string io" where
  "generatePatientId =
     await (getDocs [''patients'']) (\<lambda>querySnapshot.
     let count = int (length querySnapshot) + 1 in
     await getFullYear (\<lambda>year.
     let paddedCount = padStart (show_int count) 5 ''0'' in
     resolve (''PT-'' @ show_int year @ ''-'' @ paddedCount)))"




definition checkUserExists :: "jsval \<Rightarrow> bool io" where
  "checkUserExists email =
     await (of_result (call_method
              \<lparr>source = [''users''],
               constraints = [Where ''email'' ''=='' email, Limit 1]\<rparr> ''get'')) (\<lambda>querySnapshot.
     resolve (\<not> truthy (query_property querySnapshot ''empty'')))"

definition savePatient :: "obj \<Rightarrow> string io" where
  "savePatient patientData =
     await Timestamp_now (\<lambda>now1.
     await Timestamp_now (\<lambda>now2.
     let patientDataWithDefaults = patientData(''createdAt'' \<mapsto> now1, ''updatedAt'' \<mapsto> now2) in
     await (addDoc [''patients''] (\<lambda>ts. patientDataWithDefaults)) (\<lambda>docRef.
     resolve (snd docRef))))"

definition getPatient :: "jsval option \<Rightarrow> obj option io" where
  "getPatient patientId =
     await (of_result (doc ''patients'' patientId)) (\<lambda>patientRef.
     await (getDoc patientRef) (\<lambda>patientDoc.
     case snd patientDoc of
       Some d \<Rightarrow> resolve (Some ([''id'' \<mapsto> VStr (fst patientDoc)] ++ d))
     | None \<Rightarrow> resolve None))"

definition createNotification :: "jsval \<Rightarrow> jsval \<Rightarrow> jsval \<Rightarrow> jsval \<Rightarrow> jsval \<Rightarrow> string io" where
  "createNotification recipientId type title message data =
     await (addDoc [''notifications''] (\<lambda>ts.
              [''recipientId'' \<mapsto> recipientId, ''type'' \<mapsto> type, ''title'' \<mapsto> title,
               ''message'' \<mapsto> message, ''data'' \<mapsto> data, ''read'' \<mapsto> VBool False,
               ''createdAt'' \<mapsto> ts])) (\<lambda>docRef.
     resolve (snd docRef))"


definition createScreeningRecord :: "obj \<Rightarrow> string io" where
  "createScreeningRecord screeningData =
     await (addDoc [''screenings''] (\<lambda>ts.
              screeningData(''createdAt'' \<mapsto> ts, ''updatedAt'' \<mapsto> ts))) (\<lambda>docRef.
     await (if_truthy (screeningData ''patientId'') (\<lambda>patientId.
              await (getPatient (Some patientId)) (\<lambda>patientData.
              case patientData of
                Some pd \<Rightarrow>
                  await (createNotification patientId (VStr ''NewReport'')
                           (VStr ''New Report Available'')
                           (VStr ''Your cervical screening report has been uploaded.'')
                           (VObj [(''screeningId'', VStr (snd docRef))])) (\<lambda>_. resolve ())
              | None \<Rightarrow> resolve ()))) (\<lambda>_.
     resolve (snd docRef)))"

definition getScreeningRecord :: "jsval \<Rightarrow> obj option io" where
  "getScreeningRecord screeningId =
     await (of_result (doc ''screenings'' (Some screeningId))) (\<lambda>screeningRef.
     await (getDoc screeningRef) (\<lambda>screeningDoc.
     resolve (snd screeningDoc)))"


definition updateScreeningReview :: "jsval \<Rightarrow> jsval \<Rightarrow> jsval \<Rightarrow> jsval \<Rightarrow> bool io" where
  "updateScreeningReview screeningId reviewStatus doctorComments doctorId =
     await (of_result (doc ''screenings'' (Some screeningId))) (\<lambda>screeningRef.
     await (updateDoc screeningRef (\<lambda>ts.
              [(''reviewStatus'', reviewStatus), (''doctorComments'', doctorComments),
               (''doctorId'', doctorId), (''status'', VStr ''Reviewed''),
               (''updatedAt'', ts)])) (\<lambda>_.
     await (getScreeningRecord screeningId) (\<lambda>screeningData.
     case screeningData of
       None \<Rightarrow> resolve True
     | Some sd \<Rightarrow>
         await (getPatient (sd ''patientId'')) (\<lambda>patientData.
         let patientName =
               (case patientData of
                  Some pd \<Rightarrow> pd ''name''
                | None \<Rightarrow> Some (VStr ''the patient'')) in
         await (if_truthy (sd ''healthcareWorkerId'') (\<lambda>healthcareWorkerId.
                  await (createNotification healthcareWorkerId (VStr ''ReviewCompleted'')
                           (VStr ''Review Completed'')
                           (VStr (''The screening report for '' @ template patientName
                                  @ '' has been reviewed.''))
                           (VObj [(''screeningId'', screeningId)])) (\<lambda>_. resolve ()))) (\<lambda>_.
         await (if_truthy (sd ''patientId'') (\<lambda>patientId.
                  await (createNotification patientId (VStr ''ReviewCompleted'')
                           (VStr ''Review Completed'')
                           (VStr ''Your screening report has been reviewed by the doctor.'')
                           (VObj [(''screeningId'', screeningId)])) (\<lambda>_. resolve ()))) (\<lambda>_.
         resolve True))))))"

definition createAppointment :: "obj \<Rightarrow> string io" where
  "createAppointment appointmentData =
     await (addDoc [''appointments''] (\<lambda>ts.
              appointmentData(''type'' \<mapsto> VStr ''screening'',
                ''createdAt'' \<mapsto> ts, ''updatedAt'' \<mapsto> ts))) (\<lambda>docRef.
     resolve (snd docRef))"


definition updateAppointmentStatus :: "jsval \<Rightarrow> jsval \<Rightarrow> props \<Rightarrow> bool io" where
  "updateAppointmentStatus appointmentId status additionalData =
     await (of_result (doc ''appointments'' (Some appointmentId))) (\<lambda>appointmentRef.
     await (updateDoc appointmentRef (\<lambda>ts.
              AList.update ''updatedAt'' ts (assign [(''status'', status)] additionalData))) (\<lambda>_.
     resolve True))"



definition createDoctorAppointment :: "obj \<Rightarrow> string io" where
  "createDoctorAppointment appointmentData =
     await (addDoc [''appointments''] (\<lambda>ts.
              appointmentData(''type'' \<mapsto> VStr ''doctor'', ''status'' \<mapsto> VStr ''Pending'',
                ''createdAt'' \<mapsto> ts, ''updatedAt'' \<mapsto> ts))) (\<lambda>docRef.
     await (if_truthy (appointmentData ''doctorId'') (\<lambda>doctorId.
              await (createNotification doctorId (VStr ''APPOINTMENT_REQUEST'')
                       (VStr ''New Appointment Request'')
                       (VStr (''Patient '' @ template (appointmentData ''patientName'')
                              @ '' has requested an appointment.''))
                       (VObj [(''appointmentId'', VStr (snd docRef))])) (\<lambda>_. resolve ()))) (\<lambda>_.
     await (if_truthy (appointmentData ''patientId'') (\<lambda>patientId.
              await (createNotification patientId (VStr ''APPOINTMENT_UPDATE'')
                       (VStr ''Appointment Requested'')
                       (VStr ''Your appointment request with a doctor has been submitted.'')
                       (VObj [(''appointmentId'', VStr (snd docRef))])) (\<lambda>_. resolve ()))) (\<lambda>_.
     resolve (snd docRef))))"


definition patientDefaults :: "obj \<Rightarrow> obj" where
  "patientDefaults data =
     (Map.empty
       (''name'' := or_js (data ''name'') (Some (VStr ''Unknown'')),
        ''age'' := or_js (data ''age'') (Some (VNum 0)),
        ''phoneNumber'' := or_js (data ''phoneNumber'') (Some (VStr ''Not provided'')),
        ''email'' := or_js (data ''email'') (Some (VStr ''Not provided'')),
        ''address'' := or_js (data ''address'') (Some (VStr ''Not provided'')),
        ''bloodGroup'' := or_js (data ''bloodGroup'') (Some (VStr ''Not specified'')),
        ''menstrualStatus'' := or_js (data ''menstrualStatus'') (Some (VStr ''Not specified'')),
        ''symptoms'' := or_js (data ''symptoms'') (Some (VList [])),
        ''medicalHistory'' := or_js (data ''medicalHistory'') (Some (VStr ''No history provided''))))"

definition getPatientWithDefaults :: "jsval \<Rightarrow> obj option io" where
  "getPatientWithDefaults patientId =
     await (of_result (doc ''patients'' (Some patientId))) (\<lambda>patientRef.
     await (getDoc patientRef) (\<lambda>patientDoc.
     case snd patientDoc of
       Some data \<Rightarrow>
         resolve (Some (([''id'' \<mapsto> VStr (fst patientDoc)] ++ patientDefaults data) ++ data))
     | None \<Rightarrow> resolve None))"








text \<open>
  \<open>getPendingScreenings\<close> reads, for each screening the query returns, the patient
  document and the user document of the healthcare worker, and sorts the array it built
  with a comparator on \<open>createdAt.seconds\<close>. \<open>seconds\<close> reads that property of a value:
  a timestamp has it, a map may have it, no other value has.
\<close>

definition seconds :: "jsval option \<Rightarrow> jsval option" where
  "seconds x =
     (case x of
        Some (VTime s n) \<Rightarrow> Some (VNum s)
      | Some (VObj ps) \<Rightarrow> map_of ps ''seconds''
      | _ \<Rightarrow> None)"













section \<open>screens/ImageEnhancementScreen.tsx: the preview URL\<close>

text \<open>
  The screen keeps the four slider values, the URL of the uploaded image and the URL it
  shows. The sliders have step 1, so their values are integers. \<open>str.endsWith(s)\<close> and
  \<open>str.slice(begin, end)\<close> are JavaScript's: a negative index counts from the end.
\<close>

record CloudinaryTransformation =
  brightness :: int
  contrast :: int
  saturation :: int
  sharpness :: int

record screen =
  transformations :: CloudinaryTransformation
  originalImageUrl :: string
  previewUrl :: string

definition endsWith :: "string \<Rightarrow> string \<Rightarrow> bool" where
  "endsWith str searchString = suffix searchString str"

definition slice :: "string \<Rightarrow> int \<Rightarrow> int \<Rightarrow> string" where
  "slice str beginIndex endIndex =
     (let n = int (length str);
          from = (if beginIndex < 0 then max 0 (n + beginIndex) else min beginIndex n);
          to = (if endIndex < 0 then max 0 (n + endIndex) else min endIndex n)
      in take (nat (to - from)) (drop (nat from) str))"

text \<open>
  The effect that runs when the sliders or the original URL change. It builds the
  transformation string by appending one \<open>name:value,\<close> for each slider that is not at
  0, drops the trailing comma, and puts the string between the two parts of the URL
  around \<open>/upload/\<close> when there are exactly two parts.
\<close>

definition transformationString :: "CloudinaryTransformation \<Rightarrow> string" where
  "transformationString t =
     (let s0 = [];
          s1 = (if brightness t \<noteq> 0
                then s0 @ ''e_brightness:'' @ show_int (brightness t) @ '','' else s0);
          s2 = (if contrast t \<noteq> 0
                then s1 @ ''e_contrast:'' @ show_int (contrast t) @ '','' else s1);
          s3 = (if saturation t \<noteq> 0
                then s2 @ ''e_saturation:'' @ show_int (saturation t) @ '','' else s2);
          s4 = (if sharpness t \<noteq> 0
                then s3 @ ''e_sharpen:'' @ show_int (sharpness t) @ '','' else s3)
      in if endsWith s4 '','' then slice s4 0 (- 1) else s4)"

definition updatePreview :: "screen \<Rightarrow> screen" where
  "updatePreview st =
     (if originalImageUrl st = [] then st
      else
        let transformationString = transformationString (transformations st) in
        if transformationString \<noteq> [] then
          (let urlParts = split (originalImageUrl st) ''/upload/'' in
           if length urlParts = 2
           then st\<lparr>previewUrl :=
                  urlParts ! 0 @ ''/upload/'' @ transformationString @ ''/'' @ urlParts ! 1\<rparr>
           else st\<lparr>previewUrl := originalImageUrl st\<rparr>)
        else st\<lparr>previewUrl := originalImageUrl st\<rparr>)"

text \<open>
  The events of the screen, each followed by the effect: the screening is loaded (both
  URLs are set to its image URL), a slider is moved, the sliders are reset.
  \<open>handleConfirm\<close> saves \<open>finalImageUrl\<close>.
\<close>

definition initialScreen :: screen where
  "initialScreen =
     \<lparr>transformations = \<lparr>brightness = 0, contrast = 0, saturation = 0, sharpness = 0\<rparr>,
      originalImageUrl = [], previewUrl = []\<rparr>"

definition fetchScreeningData :: "string \<Rightarrow> screen \<Rightarrow> screen" where
  "fetchScreeningData imageUrl st =
     updatePreview (st\<lparr>originalImageUrl := imageUrl, previewUrl := imageUrl\<rparr>)"

definition setTransformations :: "CloudinaryTransformation \<Rightarrow> screen \<Rightarrow> screen" where
  "setTransformations t st = updatePreview (st\<lparr>transformations := t\<rparr>)"

definition resetTransformations :: "screen \<Rightarrow> screen" where
  "resetTransformations st =
     setTransformations \<lparr>brightness = 0, contrast = 0, saturation = 0, sharpness = 0\<rparr> st"

inductive reachable :: "screen \<Rightarrow> bool" where
  initial: "reachable initialScreen"
| fetched: "reachable st \<Longrightarrow> reachable (fetchScreeningData imageUrl st)"
| brightness_moved:
    "reachable st \<Longrightarrow>
     reachable (setTransformations ((transformations st)\<lparr>brightness := v\<rparr>) st)"
| contrast_moved:
    "reachable st \<Longrightarrow>
     reachable (setTransformations ((transformations st)\<lparr>contrast := v\<rparr>) st)"
| saturation_moved:
    "reachable st \<Longrightarrow>
     reachable (setTransformations ((transformations st)\<lparr>saturation := v\<rparr>) st)"
| sharpness_moved:
    "reachable st \<Longrightarrow>
     reachable (setTransformations ((transformations st)\<lparr>sharpness := v\<rparr>) st)"
| reset: "reachable st \<Longrightarrow> reachable (resetTransformations st)"

definition hasTransformations :: "screen \<Rightarrow> bool" where
  "hasTransformations st =
     (brightness (transformations st) \<noteq> 0 \<or> contrast (transformations st) \<noteq> 0
      \<or> saturation (transformations st) \<noteq> 0 \<or> sharpness (transformations st) \<noteq> 0)"

definition finalImageUrl :: "screen \<Rightarrow> string" where
  "finalImageUrl st = (if hasTransformations st then previewUrl st else originalImageUrl st)"

text \<open>
  What the specification says of the transformation string, in its words: the
  parameters that are not 0, in the fixed order, each as \<open>name:value\<close>, separated by
  commas. \<open>occurrences sep s\<close> counts the positions of \<open>s\<close> at which \<open>sep\<close> starts.
\<close>

definition spec_parameters :: "CloudinaryTransformation \<Rightarrow> (string \<times> int) list" where
  "spec_parameters t =
     filter (\<lambda>(name, v). v \<noteq> 0)
       [(''e_brightness'', brightness t), (''e_contrast'', contrast t),
        (''e_saturation'', saturation t), (''e_sharpen'', sharpness t)]"

definition spec_transformation :: "CloudinaryTransformation \<Rightarrow> string" where
  "spec_transformation t =
     join '','' (map (\<lambda>(name, v). name @ '':'' @ show_int v) (spec_parameters t))"

fun occurrences :: "string \<Rightarrow> string \<Rightarrow> nat" where
  "occurrences sep [] = (if sep = [] then 1 else 0)"
| "occurrences sep (c # cs) = (if prefix sep (c # cs) then 1 else 0) + occurrences sep cs"

definition demo_screen :: screen where
  "demo_screen =
     setTransformations \<lparr>brightness = 20, contrast = 0, saturation = - 10, sharpness = 0\<rparr>
       (fetchScreeningData ''https://cdn.example/image/upload/v1/a.jpg'' initialScreen)"

section \<open>Reading the models: decimal numerals and a sample database\<close>

text \<open>
  The value of a string of decimal digits, read from the left, against which the
  numerals the code prints are checked.
\<close>

definition digit_value :: "char \<Rightarrow> nat" where
  "digit_value c = of_char c - 48"

definition read_nat :: "string \<Rightarrow> nat" where
  "read_nat ds = foldl (\<lambda>a c. 10 * a + digit_value c) 0 ds"

definition is_digit :: "char \<Rightarrow> bool" where
  "is_digit c = (c \<in> set ''0123456789'')"

text \<open>
  A small database on which the theorems are run: two patients, one uploaded screening
  and one pending appointment, no call rejected. Its SDK refuses no constraints; its
  backend answers a query with the documents that pass the equality and \<open>in\<close> filters,
  in the order in which they are stored, cut at the limit; its engine sorts by
  insertion and converts \<open>null\<close> and the booleans to numbers.
\<close>

fun sample_answer :: "constraint list \<Rightarrow> coll \<Rightarrow> coll" where
  "sample_answer [] docs = docs"
| "sample_answer (Where f op v # cs) docs =
     sample_answer cs
       (filter (\<lambda>d. if op = ''=='' then snd d f = Some v
                     else if op = ''in''
                     then (case v of VList vs \<Rightarrow> snd d f \<in> Some ` set vs | _ \<Rightarrow> False)
                     else True) docs)"
| "sample_answer (OrderBy f dir # cs) docs = sample_answer cs docs"
| "sample_answer (Limit n # cs) docs = sample_answer cs (take (nat n) docs)"

fun insert_by :: "('a \<Rightarrow> 'a \<Rightarrow> int option) \<Rightarrow> 'a \<Rightarrow> 'a list \<Rightarrow> 'a list" where
  "insert_by compare x [] = [x]"
| "insert_by compare x (y # ys) =
     (case compare x y of
        Some n \<Rightarrow> if 0 < n then y # insert_by compare x ys else x # y # ys
      | None \<Rightarrow> x # y # ys)"

definition sample_sort :: "('a \<Rightarrow> 'a \<Rightarrow> int option) \<Rightarrow> 'a list \<Rightarrow> 'a list" where
  "sample_sort compare xs = foldr (insert_by compare) xs []"

fun sample_toNumber :: "jsval \<Rightarrow> int option" where
  "sample_toNumber VNull = Some 0"
| "sample_toNumber (VBool b) = Some (if b then 1 else 0)"
| "sample_toNumber (VNum n) = Some n"
| "sample_toNumber v = None"

definition demo_world :: world where
  "demo_world =
     \<lparr>colls = (\<lambda>c. [])
        ([''patients''] :=
           [(''p1'', [''name'' \<mapsto> VStr ''Asha'', ''age'' \<mapsto> VNum 34, ''email'' \<mapsto> VStr []]),
            (''p2'', [''name'' \<mapsto> VStr ''Meera'', ''phoneNumber'' \<mapsto> VStr ''+919876543210''])],
         [''screenings''] :=
           [(''s1'', [''patientId'' \<mapsto> VStr ''p1'', ''healthcareWorkerId'' \<mapsto> VStr ''h1'',
                     ''imageUrl'' \<mapsto> VStr ''https://cdn.example/image/upload/v1/a.jpg'',
                     ''status'' \<mapsto> VStr ''Uploaded''])],
         [''appointments''] :=
           [(''a1'', [''patientId'' \<mapsto> VStr ''p1'', ''doctorId'' \<mapsto> VStr ''d1'',
                     ''status'' \<mapsto> VStr ''Pending'', ''type'' \<mapsto> VStr ''doctor'',
                     ''doctorInfo'' \<mapsto> VObj [(''name'', VStr ''Dr Rao''),
                                               (''room'', VStr ''12'')]])]),
      serverClock = VTime 1762128000 0,
      clientClock = VTime 1762128001 0,
      clientYear = 2026,
      idSource = (\<lambda>n. ''auto'' @ show_nat n),
      idCount = 0,
      faults = [],
      calls = [],
      refuses = (\<lambda>cs. None),
      answer = (\<lambda>q. sample_answer (constraints q)),
      arraySort = sample_sort,
      toNumber = sample_toNumber\<rparr>"

section \<open>Runs: what an operation leaves alone and which calls it makes\<close>

text \<open>
  \<open>leaves c m\<close>: the operation \<open>m\<close> changes no document of the collection \<open>c\<close>.
  \<open>makes n Q m\<close>: in every world, \<open>m\<close> makes at most \<open>n\<close> calls to the backend, each of a
  kind that \<open>Q\<close> allows, and the outcome of the run fits them (\<open>fits\<close>): a run that
  resolves had every call served; a run that rejects with \<open>e\<close> had every call but the last
  served, and the last one, if it was rejected at all, was rejected with that very \<open>e\<close>
  (otherwise the error was thrown by the code on the device).
\<close>

definition served :: "call \<Rightarrow> bool" where
  "served k = (rejected k = None)"

fun fits :: "js_error + 'a \<Rightarrow> call list \<Rightarrow> bool" where
  "fits (Inr x) new = list_all served new"
| "fits (Inl e) new =
     (list_all served (butlast new)
      \<and> (new = [] \<or> rejected (last new) = None \<or> rejected (last new) = Some e))"

definition leaves :: "string list \<Rightarrow> 'a io \<Rightarrow> bool" where
  "leaves c m = (\<forall>w. colls (snd (m w)) c = colls w c)"

definition makes :: "nat \<Rightarrow> (call \<Rightarrow> bool) \<Rightarrow> 'a io \<Rightarrow> bool" where
  "makes n Q m =
     (\<forall>w. \<exists>new. calls (snd (m w)) = calls w @ new \<and> length new \<le> n
             \<and> list_all Q new \<and> fits (fst (m w)) new)"


definition builds :: "string \<Rightarrow> query io \<Rightarrow> bool" where
  "builds name m =
     (\<forall>w. (\<exists>e. m w = (Inl e, w)) \<or> (\<exists>q. m w = (Inr q, w) \<and> source q = [name]))"


text \<open>
  \<open>reports P m\<close>: in every world, \<open>m\<close> either resolves, with a value that satisfies \<open>P\<close>,
  or rejects with the error of the call it made last, which the backend rejected. Such
  an operation throws nothing of its own.
\<close>

definition reports :: "('a \<Rightarrow> bool) \<Rightarrow> 'a io \<Rightarrow> bool" where
  "reports P m =
     (\<forall>w. \<exists>new. calls (snd (m w)) = calls w @ new
             \<and> (case fst (m w) of
                  Inr x \<Rightarrow> P x
                | Inl e \<Rightarrow> new \<noteq> [] \<and> rejected (last new) = Some e))"

text \<open>
  The fields \<open>updateScreeningReview\<close> writes, and the calls it may make after that write.
  \<open>faulty_world\<close> is the sample database with the third call to come rejected;
  \<open>unlinked_world\<close> is the sample database with a screening whose \<open>patientId\<close> is a
  number, which \<open>doc\<close> does not accept.
\<close>

definition reviewFields :: "jsval \<Rightarrow> jsval \<Rightarrow> jsval \<Rightarrow> jsval \<Rightarrow> obj" where
  "reviewFields reviewStatus doctorComments doctorId ts =
     [''reviewStatus'' \<mapsto> reviewStatus, ''doctorComments'' \<mapsto> doctorComments,
      ''doctorId'' \<mapsto> doctorId, ''status'' \<mapsto> VStr ''Reviewed'', ''updatedAt'' \<mapsto> ts]"

definition after_review :: "call \<Rightarrow> bool" where
  "after_review k = (fn k = GetDoc \<or> (fn k = AddDoc \<and> path k = [''notifications'']))"

definition faulty_world :: world where
  "faulty_world = demo_world\<lparr>faults := [None, None, Some (FirestoreError ''unavailable'')]\<rparr>"

definition unlinked_world :: world where
  "unlinked_world =
     demo_world\<lparr>colls := (colls demo_world)
       ([''screenings''] :=
          [(''s1'', [''patientId'' \<mapsto> VNum 7, ''healthcareWorkerId'' \<mapsto> VStr ''h1'',
                    ''status'' \<mapsto> VStr ''Uploaded''])])\<rparr>"


definition demo_request :: obj where
  "demo_request =
     [''patientId'' \<mapsto> VStr ''p1'', ''patientName'' \<mapsto> VStr ''Asha'', ''doctorId'' \<mapsto> VStr ''d1'',
      ''status'' \<mapsto> VStr ''Accepted'', ''type'' \<mapsto> VStr ''follow-up'']"




section \<open>Properties\<close>

subsection \<open>One-time password\<close>

text \<open>
  C2. For every phone number \<open>sendOTP\<close> returns a confirmation object. Its \<open>confirm\<close>
  resolves, with the user that is current at that moment, exactly when the code is the
  string \<open>123456\<close>; for every other code it throws \<open>Error("Invalid verification code")\<close>.
  \<open>verifyOTP\<close> returns that user, or rethrows that error.
\<close>

theorem otp_accepts_only_123456:
  "\<exists>c. sendOTP a0 phoneNumber = Inr c
     \<and> confirm c a code =
         (if code = ''123456'' then Inr \<lparr>user = currentUser a\<rparr>
          else Inl (Error ''Invalid verification code''))
     \<and> ((\<exists>r. confirm c a code = Inr r) \<longleftrightarrow> code = ''123456'')
     \<and> verifyOTP a c code =
         (if code = ''123456'' then Inr (currentUser a)
          else Inl (Error ''Invalid verification code''))"
  by (simp add: sendOTP_def sendOTP_confirm_def verifyOTP_def Let_def)

theorem otp_accepts_only_123456_witness:
  "\<exists>c. sendOTP \<lparr>currentUser = Some ''uid-1''\<rparr> ''919876543210'' = Inr c
     \<and> confirm c \<lparr>currentUser = Some ''uid-1''\<rparr> ''123456'' = Inr \<lparr>user = Some ''uid-1''\<rparr>
     \<and> verifyOTP \<lparr>currentUser = Some ''uid-1''\<rparr> c ''123456'' = Inr (Some ''uid-1'')
     \<and> verifyOTP \<lparr>currentUser = Some ''uid-1''\<rparr> c ''654321''
         = Inl (Error ''Invalid verification code'')"
  using otp_accepts_only_123456 [of "\<lparr>currentUser = Some ''uid-1''\<rparr>" "''919876543210''"
      "\<lparr>currentUser = Some ''uid-1''\<rparr>" "''123456''"]
    otp_accepts_only_123456 [of "\<lparr>currentUser = Some ''uid-1''\<rparr>" "''919876543210''"
      "\<lparr>currentUser = Some ''uid-1''\<rparr>" "''654321''"]
  by (auto simp: sendOTP_def)

subsection \<open>Promises\<close>

lemma await_resolve [simp]: "await (resolve x) k = k x"
  by (rule ext) (simp add: await_def resolve_def)

lemma await_reject [simp]: "await (reject e) k = reject e"
  by (rule ext) (simp add: await_def reject_def)

lemma await_Inr: "m w = (Inr x, w1) \<Longrightarrow> await m k w = k x w1"
  by (simp add: await_def)

subsection \<open>Decimal numerals\<close>

lemma digit_char_cases:
  assumes "d < 10"
  shows "digit_value (digit_char d) = d \<and> is_digit (digit_char d)"
proof -
  from assms have "d \<in> {0, 1, 2, 3, 4, 5, 6, 7, 8, 9}" by auto
  then show ?thesis
    by (auto simp: digit_char_def digit_value_def is_digit_def)
qed

lemma read_nat_snoc: "read_nat (ds @ [c]) = 10 * read_nat ds + digit_value c"
  by (simp add: read_nat_def)

lemma read_show_nat: "read_nat (show_nat n) = n"
proof (induction n rule: show_nat.induct)
  case (1 n)
  show ?case
  proof (cases "n < 10")
    case True
    then show ?thesis
      using digit_char_cases [of n] by (simp add: show_nat.simps [of n] read_nat_def)
  next
    case False
    then have "read_nat (show_nat (n div 10)) = n div 10" using 1 by simp
    moreover have "digit_value (digit_char (n mod 10)) = n mod 10"
      using digit_char_cases [of "n mod 10"] by simp
    ultimately show ?thesis
      using False by (simp add: show_nat.simps [of n] read_nat_snoc)
  qed
qed

lemma digits_show_nat: "list_all is_digit (show_nat n)"
proof (induction n rule: show_nat.induct)
  case (1 n)
  show ?case
  proof (cases "n < 10")
    case True
    then show ?thesis
      using digit_char_cases [of n] by (simp add: show_nat.simps [of n])
  next
    case False
    then show ?thesis
      using 1 digit_char_cases [of "n mod 10"] by (simp add: show_nat.simps [of n])
  qed
qed

lemma show_nat_nonempty: "show_nat n \<noteq> []"
  by (subst show_nat.simps) simp

lemma show_nat_no_leading_zero: "0 < n \<Longrightarrow> hd (show_nat n) \<noteq> CHR ''0''"
proof (induction n rule: show_nat.induct)
  case (1 n)
  show ?case
  proof (cases "n < 10")
    case True
    with 1(2) have "n \<in> {1, 2, 3, 4, 5, 6, 7, 8, 9}" by auto
    then show ?thesis
      by (auto simp: show_nat.simps [of n] digit_char_def)
  next
    case False
    then have "0 < n div 10" by simp
    with 1(1) False have "hd (show_nat (n div 10)) \<noteq> CHR ''0''" by simp
    then show ?thesis
      using False show_nat_nonempty [of "n div 10"] by (simp add: show_nat.simps [of n])
  qed
qed

lemma padStart_zero:
  "padStart s n ''0'' = replicate (n - length s) CHR ''0'' @ s"
  by (induction "n - length s" arbitrary: n) (auto simp: padStart_def)


subsection \<open>Patient ids\<close>

lemma getDocs_served:
  "nextFault w = None \<Longrightarrow> getDocs c w = (Inr (colls w c), logCall GetDocs c None None w)"
  by (simp add: getDocs_def)

lemma generatePatientId_served:
  assumes "nextFault w = None"
  shows "generatePatientId w =
           (Inr (''PT-'' @ show_int (clientYear w) @ ''-''
                 @ padStart (show_nat (Suc (length (colls w [''patients''])))) 5 ''0''),
            logCall GetDocs [''patients''] None None w)"
proof -
  have "show_int (int (length (colls w [''patients''])) + 1)
          = show_nat (Suc (length (colls w [''patients''])))"
    by (simp add: show_int_def nat_add_distrib)
  then show ?thesis
    using assms
    by (simp add: generatePatientId_def await_def getDocs_def getFullYear_def resolve_def
        logCall_def Let_def)
qed

text \<open>
  C9. When the backend serves the read of the \<open>patients\<close> collection and the collection
  holds \<open>n\<close> documents, \<open>generatePatientId\<close> returns \<open>PT-\<close>, the device's year, a hyphen
  and a string of decimal digits whose value is \<open>n + 1\<close>, at least five long and with
  leading zeros only as far as needed to reach five. Any other database with the same
  number of patients (and the same year) gives the same id: the documents themselves are
  not looked at.
\<close>

theorem generatePatientId_from_count:
  assumes "nextFault w = None" and "length (colls w [''patients'']) = n"
  shows "\<exists>ds. fst (generatePatientId w) = Inr (''PT-'' @ show_int (clientYear w) @ ''-'' @ ds)
           \<and> list_all is_digit ds \<and> read_nat ds = n + 1
           \<and> 5 \<le> length ds \<and> (length ds = 5 \<or> hd ds \<noteq> CHR ''0'')
           \<and> (\<forall>w'. nextFault w' = None \<and> length (colls w' [''patients'']) = n
                    \<and> clientYear w' = clientYear w
                  \<longrightarrow> fst (generatePatientId w') = fst (generatePatientId w))"
proof -
  let ?num = "show_nat (Suc n)"
  let ?ds = "padStart ?num 5 ''0''"
  have ds: "?ds = replicate (5 - length ?num) CHR ''0'' @ ?num"
    by (rule padStart_zero)
  have "list_all is_digit (replicate k CHR ''0'')" for k
    by (induction k) (simp_all add: is_digit_def)
  then have digits: "list_all is_digit ?ds"
    unfolding ds using digits_show_nat [of "Suc n"] by simp
  have "read_nat (replicate k CHR ''0'' @ xs) = read_nat xs" for k xs
    by (induction k) (simp_all add: read_nat_def digit_value_def)
  then have val: "read_nat ?ds = n + 1"
    unfolding ds by (simp add: read_show_nat)
  have len: "5 \<le> length ?ds"
    unfolding ds by simp
  have lead: "length ?ds = 5 \<or> hd ?ds \<noteq> CHR ''0''"
  proof (cases "length ?num < 5")
    case True
    then show ?thesis unfolding ds by simp
  next
    case False
    then have "?ds = ?num" unfolding ds by simp
    then show ?thesis using show_nat_no_leading_zero [of "Suc n"] by simp
  qed
  have same: "fst (generatePatientId w') = fst (generatePatientId w)"
    if "nextFault w' = None" "length (colls w' [''patients'']) = n" "clientYear w' = clientYear w"
    for w'
    using that assms by (simp add: generatePatientId_served)
  have run: "fst (generatePatientId w) = Inr (''PT-'' @ show_int (clientYear w) @ ''-'' @ ?ds)"
    using assms by (simp add: generatePatientId_served)
  show ?thesis
  proof (rule exI [of _ ?ds], intro conjI allI impI)
    fix w'
    assume "nextFault w' = None \<and> length (colls w' [''patients'']) = n
      \<and> clientYear w' = clientYear w"
    then show "fst (generatePatientId w') = fst (generatePatientId w)"
      using same by blast
  qed (fact run digits val len lead)+
qed

theorem generatePatientId_from_count_witness:
  "nextFault demo_world = None \<and> length (colls demo_world [''patients'']) = 2
   \<and> fst (generatePatientId demo_world) = Inr ''PT-2026-00003''"
proof -
  have h1: "nextFault demo_world = None"
    by (simp add: demo_world_def nextFault_def)
  have h2: "length (colls demo_world [''patients'']) = 2"
    by (simp add: demo_world_def)
  from generatePatientId_from_count [OF h1 h2]
  obtain ds where "fst (generatePatientId demo_world)
      = Inr (''PT-'' @ show_int (clientYear demo_world) @ ''-'' @ ds)" by blast
  moreover have "fst (generatePatientId demo_world) = Inr ''PT-2026-00003''"
    by code_simp
  ultimately show ?thesis using h1 h2 by simp
qed

subsection \<open>The existence check\<close>

text \<open>
  C8. \<open>checkUserExists\<close> never returns a boolean. For every email and every state of the
  backend it throws a \<open>TypeError\<close>, before any call to the backend and without changing
  anything: it calls \<open>.get()\<close> on the query object, which has no such method.
\<close>

theorem checkUserExists_always_throws:
  "checkUserExists email w = (Inl TypeError, w) \<and> (\<forall>b. fst (checkUserExists email w) \<noteq> Inr b)"
  by (simp add: checkUserExists_def call_method_def query_methods_def of_result_def await_def)

theorem checkUserExists_always_throws_witness:
  "checkUserExists (VStr ''asha@example.org'') demo_world = (Inl TypeError, demo_world)"
  using checkUserExists_always_throws [of "VStr ''asha@example.org''" demo_world] by simp

subsection \<open>Updates and field paths\<close>

lemma fieldPath_valid: "validFieldPath k \<Longrightarrow> fieldPath k = Inr (split k ''.'')"
  by (simp add: fieldPath_def)

lemma parseUpdateData_valid:
  "list_all validFieldPath (map fst ps) \<Longrightarrow>
   parseUpdateData ps = Inr (map (\<lambda>(k, v). (split k ''.'', v)) ps)"
  by (induction ps) (auto simp: fieldPath_def)

lemma parseUpdateData_invalid:
  "\<not> list_all validFieldPath (map fst ps) \<Longrightarrow>
   parseUpdateData ps = Inl (FirestoreError ''invalid-argument'')"
  by (induction ps) (auto simp: fieldPath_def split: sum.splits)

lemma keys_assign: "fst ` set (assign object extra) = fst ` set object \<union> fst ` set extra"
  unfolding assign_def
proof (induction extra arbitrary: object)
  case Nil
  show ?case by simp
next
  case (Cons kv extra)
  obtain k v where kv: "kv = (k, v)" by (cases kv)
  have "fst ` set (foldl (\<lambda>object (k, v). AList.update k v object) (AList.update k v object) extra)
          = fst ` set (AList.update k v object) \<union> fst ` set extra"
    by (rule Cons.IH)
  also have "\<dots> = fst ` set object \<union> fst ` set ((k, v) # extra)"
    by (simp add: dom_update)
  finally show ?case by (simp add: kv)
qed

lemma distinct_assign:
  "distinct (map fst object) \<Longrightarrow> distinct (map fst (assign object extra))"
  unfolding assign_def
  by (induction extra arbitrary: object) (auto simp: distinct_update)

lemma map_of_assign:
  "distinct (map fst extra) \<Longrightarrow> map_of (assign object extra) = map_of object ++ map_of extra"
  unfolding assign_def
proof (induction extra arbitrary: object)
  case Nil
  show ?case by simp
next
  case (Cons kv extra)
  obtain k v where kv: "kv = (k, v)" by (cases kv)
  from Cons.prems kv have k: "map_of extra k = None" and d: "distinct (map fst extra)"
    by (auto simp: map_of_eq_None_iff)
  have "map_of (foldl (\<lambda>object (k, v). AList.update k v object) (AList.update k v object) extra)
          = map_of (AList.update k v object) ++ map_of extra"
    by (rule Cons.IH [OF d])
  also have "\<dots> = map_of object ++ map_of ((k, v) # extra)"
    using k by (intro ext) (simp add: update_conv' map_add_def split: option.splits)
  finally have main:
    "map_of (foldl (\<lambda>object (k, v). AList.update k v object) (AList.update k v object) extra)
       = map_of object ++ map_of ((k, v) # extra)" .
  show ?case
    unfolding kv by (simp only: foldl_Cons prod.case main)
qed

lemma splitAcc_nonempty: "splitAcc sep acc s \<noteq> []"
  by (induction sep acc s rule: splitAcc.induct) auto

lemma split_nonempty: "split k ''.'' \<noteq> []"
  by (simp add: split_def splitAcc_nonempty)

lemma setField_other: "p = [] \<or> hd p \<noteq> f \<Longrightarrow> setField p v d f = d f"
  by (cases "(p, v, d)" rule: setField.cases) auto

lemma applyFields_Cons: "applyFields ((p, v) # ps) d = applyFields ps (setField p v d)"
  by (simp add: applyFields_def)

lemma applyFields_append: "applyFields (ps @ qs) d = applyFields qs (applyFields ps d)"
  by (simp add: applyFields_def)

lemma applyFields_other:
  "list_all (\<lambda>pv. fst pv = [] \<or> hd (fst pv) \<noteq> f) ps \<Longrightarrow> applyFields ps d f = d f"
proof (induction ps arbitrary: d)
  case Nil
  show ?case by (simp add: applyFields_def)
next
  case (Cons pv ps)
  obtain p v where pv: "pv = (p, v)" by (cases pv)
  from Cons.prems pv have here: "p = [] \<or> hd p \<noteq> f"
    and rest: "list_all (\<lambda>pv. fst pv = [] \<or> hd (fst pv) \<noteq> f) ps" by simp_all
  have "applyFields (pv # ps) d f = applyFields ps (setField p v d) f"
    by (simp add: pv applyFields_Cons)
  also have "\<dots> = setField p v d f" by (rule Cons.IH [OF rest])
  also have "\<dots> = d f" by (rule setField_other [OF here])
  finally show ?case .
qed

lemma applyFields_plain:
  assumes dist: "distinct (map fst U)"
    and mem: "(k, v) \<in> set U"
    and plain: "split k ''.'' = [k]"
    and alone: "\<forall>k' \<in> fst ` set U. topField k' = k \<longrightarrow> k' = k"
  shows "applyFields (map (\<lambda>(k, v). (split k ''.'', v)) U) d k = Some v"
proof -
  let ?g = "\<lambda>(k, v). (split k ''.'', v)"
  from mem obtain xs ys where U: "U = xs @ (k, v) # ys"
    by (meson split_list)
  from dist U have notin: "k \<notin> fst ` set ys" by auto
  have later: "list_all (\<lambda>pv. fst pv = [] \<or> hd (fst pv) \<noteq> k) (map ?g ys)"
    unfolding list_all_iff
  proof
    fix pv assume "pv \<in> set (map ?g ys)"
    then obtain k' v' where kv: "(k', v') \<in> set ys" and pv: "pv = (split k' ''.'', v')"
      by auto
    from kv have k': "k' \<in> fst ` set U" unfolding U by force
    from kv notin have "k' \<noteq> k" by force
    with alone k' have "topField k' \<noteq> k" by blast
    then show "fst pv = [] \<or> hd (fst pv) \<noteq> k"
      by (simp add: pv topField_def)
  qed
  have "applyFields (map ?g U) d k
          = applyFields (map ?g ys) (setField [k] v (applyFields (map ?g xs) d)) k"
    unfolding U by (simp add: applyFields_append applyFields_Cons plain)
  also have "\<dots> = setField [k] v (applyFields (map ?g xs) d) k"
    by (rule applyFields_other [OF later])
  also have "\<dots> = Some v" by simp
  finally show ?thesis .
qed


lemma setField_same:
  "d1 (hd p) = d (hd p) \<Longrightarrow> setField p v d1 (hd p) = setField p v d (hd p)"
  by (cases "(p, v, d)" rule: setField.cases) auto

lemma applyFields_alone:
  assumes dist: "distinct (map fst U)"
    and mem: "(k, v) \<in> set U"
    and alone: "\<forall>k' \<in> fst ` set U. topField k' = topField k \<longrightarrow> k' = k"
  shows "applyFields (map (\<lambda>(k, v). (split k ''.'', v)) U) d (topField k)
           = setField (split k ''.'') v d (topField k)"
proof -
  let ?g = "\<lambda>(k, v). (split k ''.'', v)"
  let ?f = "topField k"
  from mem obtain xs ys where U: "U = xs @ (k, v) # ys"
    by (meson split_list)
  have away: "list_all (\<lambda>pv. fst pv = [] \<or> hd (fst pv) \<noteq> ?f) (map ?g zs)"
    if zs: "set zs \<subseteq> set U" "k \<notin> fst ` set zs" for zs
    unfolding list_all_iff
  proof
    fix pv assume "pv \<in> set (map ?g zs)"
    then obtain k' v' where kv: "(k', v') \<in> set zs" and pv: "pv = (split k' ''.'', v')"
      by auto
    from kv zs(1) have k': "k' \<in> fst ` set U" by force
    from kv zs(2) have "k' \<noteq> k" by force
    with alone k' have "topField k' \<noteq> ?f" by blast
    then show "fst pv = [] \<or> hd (fst pv) \<noteq> ?f"
      by (simp add: pv topField_def)
  qed
  from dist U have "k \<notin> fst ` set xs" "k \<notin> fst ` set ys" by auto
  then have before: "list_all (\<lambda>pv. fst pv = [] \<or> hd (fst pv) \<noteq> ?f) (map ?g xs)"
    and later: "list_all (\<lambda>pv. fst pv = [] \<or> hd (fst pv) \<noteq> ?f) (map ?g ys)"
    by (auto intro!: away simp: U)
  have start: "applyFields (map ?g xs) d ?f = d ?f"
    by (rule applyFields_other [OF before])
  have "applyFields (map ?g U) d ?f
          = applyFields (map ?g ys) (setField (split k ''.'') v (applyFields (map ?g xs) d)) ?f"
    unfolding U by (simp add: applyFields_append applyFields_Cons)
  also have "\<dots> = setField (split k ''.'') v (applyFields (map ?g xs) d) ?f"
    by (rule applyFields_other [OF later])
  also have "\<dots> = setField (split k ''.'') v d ?f"
    unfolding topField_def using start by (intro setField_same) (simp add: topField_def)
  finally show ?thesis .
qed

lemma plain_status:
  "validFieldPath ''status'' \<and> split ''status'' ''.'' = [''status'']
   \<and> validFieldPath ''updatedAt'' \<and> split ''updatedAt'' ''.'' = [''updatedAt'']"
  by code_simp

lemma own_fieldPaths:
  "fieldPath ''reviewStatus'' = Inr [''reviewStatus'']"
  "fieldPath ''doctorComments'' = Inr [''doctorComments'']"
  "fieldPath ''doctorId'' = Inr [''doctorId'']"
  "fieldPath ''status'' = Inr [''status'']"
  "fieldPath ''updatedAt'' = Inr [''updatedAt'']"
  "fieldPath ''read'' = Inr [''read'']"
  "fieldPath ''adjustedImageUrl'' = Inr [''adjustedImageUrl'']"
  by code_simp+

subsection \<open>Appointment status\<close>

text \<open>
  C7, as the code has it. \<open>additionalData\<close> is an object, so its property names are
  distinct. When the appointment document exists and the backend serves the update:

  If every property name of \<open>additionalData\<close> is a valid field path,
  \<open>updateAppointmentStatus\<close> returns \<open>true\<close>, and in the appointment document every
  field other than \<open>status\<close>, \<open>updatedAt\<close> and the fields that the names of
  \<open>additionalData\<close> address (the first segment of each name) is as before. A field
  that one name alone addresses is the old field with the value set at the path of that
  name (\<open>setField\<close>): the value itself for a name without a dot, and the map with the
  part replaced for a name with dots. \<open>status\<close> is the given status unless a name of
  \<open>additionalData\<close> addresses it; \<open>updatedAt\<close> is the server's time unless a name
  reaches into it. No other document changes.

  If some property name is not a valid field path, the function throws
  \<open>invalid-argument\<close> and nothing changes: no call is made.
\<close>

theorem updateAppointmentStatus_frame:
  assumes "doc ''appointments'' (Some appointmentId) = Inr (c, i)"
    and "nextFault w = None"
    and "map_of (colls w c) i = Some d"
    and "distinct (map fst additionalData)"
    and "updateAppointmentStatus appointmentId status additionalData w = (r, w')"
  shows "(list_all validFieldPath (map fst additionalData) \<longrightarrow>
            r = Inr True
          \<and> (\<exists>d'. map_of (colls w' c) i = Some d'
                \<and> (\<forall>f. f \<noteq> ''status'' \<and> f \<noteq> ''updatedAt''
                        \<and> f \<notin> topField ` fst ` set additionalData \<longrightarrow> d' f = d f)
                \<and> (\<forall>k v. map_of additionalData k = Some v \<and> topField k \<noteq> ''updatedAt''
                          \<and> (topField k = ''status'' \<longrightarrow> k = ''status'')
                          \<and> (\<forall>k' \<in> fst ` set additionalData. topField k' = topField k \<longrightarrow> k' = k)
                        \<longrightarrow> d' (topField k) = setField (split k ''.'') v d (topField k))
                \<and> (''status'' \<notin> topField ` fst ` set additionalData
                     \<longrightarrow> d' ''status'' = Some status)
                \<and> ((\<forall>k' \<in> fst ` set additionalData.
                        topField k' = ''updatedAt'' \<longrightarrow> k' = ''updatedAt'')
                     \<longrightarrow> d' ''updatedAt'' = Some (serverClock w)))
          \<and> (\<forall>c' i'. (c', i') \<noteq> (c, i) \<longrightarrow> map_of (colls w' c') i' = map_of (colls w c') i'))
     \<and> (\<not> list_all validFieldPath (map fst additionalData) \<longrightarrow>
            r = Inl (FirestoreError ''invalid-argument'') \<and> w' = w)"
proof -
  let ?keys = "fst ` set additionalData"
  let ?U = "AList.update ''updatedAt'' (serverClock w) (assign [(''status'', status)] additionalData)"
  let ?parsed = "map (\<lambda>(k, v). (split k ''.'', v)) ?U"
  let ?d' = "applyFields ?parsed d"
  let ?w1 = "logCall UpdateDoc c (Some i) None
               (w\<lparr>colls := (colls w)(c := AList.update i ?d' (colls w c))\<rparr>)"
  note plain = plain_status [THEN conjunct1] plain_status [THEN conjunct2, THEN conjunct1]
    plain_status [THEN conjunct2, THEN conjunct2, THEN conjunct1]
    plain_status [THEN conjunct2, THEN conjunct2, THEN conjunct2]
  have keys: "fst ` set ?U = insert ''updatedAt'' (insert ''status'' ?keys)"
    by (simp add: dom_update keys_assign insert_commute)
  have tops: "topField ''status'' = ''status''" "topField ''updatedAt'' = ''updatedAt''"
    by (simp_all add: topField_def plain)
  have unfold: "updateAppointmentStatus appointmentId status additionalData w
      = await (updateDoc (c, i) (\<lambda>ts. AList.update ''updatedAt'' ts
                 (assign [(''status'', status)] additionalData))) (\<lambda>_. resolve True) w"
    using assms(1) by (simp add: updateAppointmentStatus_def of_result_def await_def)
  have bad: "r = Inl (FirestoreError ''invalid-argument'') \<and> w' = w"
    if invalid: "\<not> list_all validFieldPath (map fst additionalData)"
  proof -
    from invalid keys have "\<not> list_all validFieldPath (map fst ?U)"
      unfolding list_all_iff by auto
    then have "parseUpdateData ?U = Inl (FirestoreError ''invalid-argument'')"
      by (rule parseUpdateData_invalid)
    then have "updateAppointmentStatus appointmentId status additionalData w
        = (Inl (FirestoreError ''invalid-argument''), w)"
      unfolding unfold by (simp add: await_def updateDoc_def)
    with assms(5) show ?thesis by simp
  qed
  have good: "r = Inr True
          \<and> (\<exists>d'. map_of (colls w' c) i = Some d'
                \<and> (\<forall>f. f \<noteq> ''status'' \<and> f \<noteq> ''updatedAt''
                        \<and> f \<notin> topField ` fst ` set additionalData \<longrightarrow> d' f = d f)
                \<and> (\<forall>k v. map_of additionalData k = Some v \<and> topField k \<noteq> ''updatedAt''
                          \<and> (topField k = ''status'' \<longrightarrow> k = ''status'')
                          \<and> (\<forall>k' \<in> fst ` set additionalData. topField k' = topField k \<longrightarrow> k' = k)
                        \<longrightarrow> d' (topField k) = setField (split k ''.'') v d (topField k))
                \<and> (''status'' \<notin> topField ` fst ` set additionalData
                     \<longrightarrow> d' ''status'' = Some status)
                \<and> ((\<forall>k' \<in> fst ` set additionalData.
                        topField k' = ''updatedAt'' \<longrightarrow> k' = ''updatedAt'')
                     \<longrightarrow> d' ''updatedAt'' = Some (serverClock w)))
          \<and> (\<forall>c' i'. (c', i') \<noteq> (c, i) \<longrightarrow> map_of (colls w' c') i' = map_of (colls w c') i')"
    if valid: "list_all validFieldPath (map fst additionalData)"
  proof -
    from valid keys plain have "list_all validFieldPath (map fst ?U)"
      unfolding list_all_iff by auto
    then have parse: "parseUpdateData ?U = Inr ?parsed"
      by (rule parseUpdateData_valid)
    have run: "updateAppointmentStatus appointmentId status additionalData w = (Inr True, ?w1)"
      unfolding unfold using assms(2,3) parse by (simp add: await_def updateDoc_def resolve_def)
    with assms(5) have r: "r = Inr True" and w': "w' = ?w1" by simp_all
    have stored: "map_of (colls w' c) i = Some ?d'"
      unfolding w' by (simp add: logCall_def update_conv')
    have others: "map_of (colls w' c') i' = map_of (colls w c') i'" if "(c', i') \<noteq> (c, i)" for c' i'
      using that unfolding w' by (auto simp: logCall_def update_conv')
    have dist: "distinct (map fst ?U)"
      by (simp add: distinct_update distinct_assign)
    have mapU: "map_of ?U = ([''status'' \<mapsto> status] ++ map_of additionalData)
                              (''updatedAt'' \<mapsto> serverClock w)"
      by (simp add: update_conv' map_of_assign [OF assms(4)])
    have frame: "?d' f = d f"
      if f: "f \<noteq> ''status'' \<and> f \<noteq> ''updatedAt'' \<and> f \<notin> topField ` fst ` set additionalData" for f
    proof (rule applyFields_other, unfold list_all_iff, rule ballI)
      fix pv assume "pv \<in> set ?parsed"
      then obtain k v where kv: "(k, v) \<in> set ?U" and pv: "pv = (split k ''.'', v)"
        by auto
      from kv have "k \<in> fst ` set ?U" by force
      with keys have "k = ''updatedAt'' \<or> k = ''status'' \<or> k \<in> ?keys" by simp
      with f tops have "topField k \<noteq> f" by auto
      then show "fst pv = [] \<or> hd (fst pv) \<noteq> f"
        by (simp add: pv topField_def)
    qed
    have alone: "\<forall>k' \<in> fst ` set ?U. topField k' = k \<longrightarrow> k' = k"
      if "\<forall>k' \<in> ?keys. topField k' = k \<longrightarrow> k' = k" for k
      using that tops unfolding keys by auto
    have given: "?d' (topField k) = setField (split k ''.'') v d (topField k)"
      if kv: "map_of additionalData k = Some v \<and> topField k \<noteq> ''updatedAt''
            \<and> (topField k = ''status'' \<longrightarrow> k = ''status'')
            \<and> (\<forall>k' \<in> fst ` set additionalData. topField k' = topField k \<longrightarrow> k' = k)" for k v
    proof -
      from kv tops have "k \<noteq> ''updatedAt''" by auto
      with kv have "map_of ?U k = Some v"
        unfolding mapU by (simp add: map_add_def)
      then have mem: "(k, v) \<in> set ?U" by (rule map_of_SomeD)
      from kv tops have a: "\<forall>k' \<in> fst ` set ?U. topField k' = topField k \<longrightarrow> k' = k"
        unfolding keys by auto
      show ?thesis by (rule applyFields_alone [OF dist mem a])
    qed
    have status: "?d' ''status'' = Some status"
      if s: "''status'' \<notin> topField ` fst ` set additionalData"
    proof -
      from s tops have notkey: "''status'' \<notin> ?keys" by force
      then have "map_of additionalData ''status'' = None"
        by (simp add: map_of_eq_None_iff)
      then have "map_of ?U ''status'' = Some status"
        unfolding mapU by (simp add: map_add_def)
      then have mem: "(''status'', status) \<in> set ?U" by (rule map_of_SomeD)
      from s have "\<forall>k' \<in> ?keys. topField k' = ''status'' \<longrightarrow> k' = ''status''"
        by (metis imageI)
      then have a: "\<forall>k' \<in> fst ` set ?U. topField k' = ''status'' \<longrightarrow> k' = ''status''"
        by (rule alone)
      show ?thesis by (rule applyFields_plain [OF dist mem plain(2) a])
    qed
    have stamp: "?d' ''updatedAt'' = Some (serverClock w)"
      if s: "\<forall>k' \<in> fst ` set additionalData. topField k' = ''updatedAt'' \<longrightarrow> k' = ''updatedAt''"
    proof -
      have "map_of ?U ''updatedAt'' = Some (serverClock w)"
        unfolding mapU by simp
      then have mem: "(''updatedAt'', serverClock w) \<in> set ?U" by (rule map_of_SomeD)
      from s have a: "\<forall>k' \<in> fst ` set ?U. topField k' = ''updatedAt'' \<longrightarrow> k' = ''updatedAt''"
        by (rule alone)
      show ?thesis by (rule applyFields_plain [OF dist mem plain(4) a])
    qed
    show ?thesis
    proof (intro conjI)
      show "r = Inr True" by (rule r)
      show "\<exists>d'. map_of (colls w' c) i = Some d'
                \<and> (\<forall>f. f \<noteq> ''status'' \<and> f \<noteq> ''updatedAt''
                        \<and> f \<notin> topField ` fst ` set additionalData \<longrightarrow> d' f = d f)
                \<and> (\<forall>k v. map_of additionalData k = Some v \<and> topField k \<noteq> ''updatedAt''
                          \<and> (topField k = ''status'' \<longrightarrow> k = ''status'')
                          \<and> (\<forall>k' \<in> fst ` set additionalData. topField k' = topField k \<longrightarrow> k' = k)
                        \<longrightarrow> d' (topField k) = setField (split k ''.'') v d (topField k))
                \<and> (''status'' \<notin> topField ` fst ` set additionalData
                     \<longrightarrow> d' ''status'' = Some status)
                \<and> ((\<forall>k' \<in> fst ` set additionalData.
                        topField k' = ''updatedAt'' \<longrightarrow> k' = ''updatedAt'')
                     \<longrightarrow> d' ''updatedAt'' = Some (serverClock w))"
      proof (rule exI [of _ ?d'], intro conjI allI impI)
        show "map_of (colls w' c) i = Some ?d'" by (rule stored)
      qed (fact frame given status stamp)+
      show "\<forall>c' i'. (c', i') \<noteq> (c, i) \<longrightarrow> map_of (colls w' c') i' = map_of (colls w c') i'"
        using others by (intro allI impI)
    qed
  qed
  show ?thesis
    by (intro conjI impI good bad)
qed


theorem updateAppointmentStatus_frame_witness:
  "doc ''appointments'' (Some (VStr ''a1'')) = Inr ([''appointments''], ''a1'')
   \<and> nextFault demo_world = None
   \<and> (\<exists>d. map_of (colls demo_world [''appointments'']) ''a1'' = Some d
          \<and> d ''status'' = Some (VStr ''Pending''))
   \<and> list_all validFieldPath (map fst [(''scheduledDate'', VStr ''2026-11-10'')])
   \<and> fst (updateAppointmentStatus (VStr ''a1'') (VStr ''Accepted'')
             [(''scheduledDate'', VStr ''2026-11-10'')] demo_world) = Inr True
   \<and> (\<exists>d'. map_of (colls (snd (updateAppointmentStatus (VStr ''a1'') (VStr ''Accepted'')
                 [(''scheduledDate'', VStr ''2026-11-10'')] demo_world)) [''appointments'']) ''a1''
               = Some d'
          \<and> d' ''status'' = Some (VStr ''Accepted'')
          \<and> d' ''scheduledDate'' = Some (VStr ''2026-11-10'')
          \<and> d' ''updatedAt'' = Some (VTime 1762128000 0)
          \<and> d' ''patientId'' = Some (VStr ''p1''))
   \<and> list_all validFieldPath (map fst [(''doctorInfo.name'', VStr ''Dr Sen'')])
   \<and> (\<exists>d'. map_of (colls (snd (updateAppointmentStatus (VStr ''a1'') (VStr ''Accepted'')
                 [(''doctorInfo.name'', VStr ''Dr Sen'')] demo_world)) [''appointments'']) ''a1''
               = Some d'
          \<and> d' ''doctorInfo'' = Some (VObj [(''name'', VStr ''Dr Sen''), (''room'', VStr ''12'')])
          \<and> d' ''doctorId'' = Some (VStr ''d1''))
   \<and> \<not> list_all validFieldPath (map fst [(''a/b'', VNum 1)])
   \<and> updateAppointmentStatus (VStr ''a1'') (VStr ''Accepted'') [(''a/b'', VNum 1)] demo_world
       = (Inl (FirestoreError ''invalid-argument''), demo_world)"
proof -
  let ?extra = "[(''scheduledDate'', VStr ''2026-11-10'')]"
  let ?run = "updateAppointmentStatus (VStr ''a1'') (VStr ''Accepted'') ?extra demo_world"
  let ?bad = "updateAppointmentStatus (VStr ''a1'') (VStr ''Accepted'') [(''a/b'', VNum 1)] demo_world"
  let ?nested = "[(''doctorInfo.name'', VStr ''Dr Sen'')]"
  let ?deep = "updateAppointmentStatus (VStr ''a1'') (VStr ''Accepted'') ?nested demo_world"
  let ?d = "[''patientId'' \<mapsto> VStr ''p1'', ''doctorId'' \<mapsto> VStr ''d1'',
             ''status'' \<mapsto> VStr ''Pending'', ''type'' \<mapsto> VStr ''doctor'',
             ''doctorInfo'' \<mapsto> VObj [(''name'', VStr ''Dr Rao''), (''room'', VStr ''12'')]]"
  have h1: "doc ''appointments'' (Some (VStr ''a1'')) = Inr ([''appointments''], ''a1'')"
    by (simp add: doc_def split_def)
  have h2: "nextFault demo_world = None"
    by (simp add: demo_world_def nextFault_def)
  have h3: "map_of (colls demo_world [''appointments'']) ''a1'' = Some ?d"
    by (simp add: demo_world_def)
  have h4: "distinct (map fst ?extra)" "distinct (map fst [(''a/b'', VNum 1)])"
    by simp_all
  have h5: "?run = (fst ?run, snd ?run)" "?bad = (fst ?bad, snd ?bad)"
    by simp_all
  have valid: "list_all validFieldPath (map fst ?extra)"
    by code_simp
  have invalid: "\<not> list_all validFieldPath (map fst [(''a/b'', VNum 1)])"
    by code_simp
  have top: "topField ''scheduledDate'' = ''scheduledDate''"
    "split ''scheduledDate'' ''.'' = [''scheduledDate'']"
    by code_simp+
  have clock: "serverClock demo_world = VTime 1762128000 0"
    by (simp add: demo_world_def)
  note t = updateAppointmentStatus_frame [OF h1 h2 h3 h4(1) h5(1), THEN conjunct1, THEN mp, OF valid]
  note b = updateAppointmentStatus_frame [OF h1 h2 h3 h4(2) h5(2), THEN conjunct2, THEN mp, OF invalid]
  from t have r: "fst ?run = Inr True"
    by (rule conjunct1)
  from t [THEN conjunct2, THEN conjunct1]
  obtain d' where d: "map_of (colls (snd ?run) [''appointments'']) ''a1'' = Some d'
      \<and> (\<forall>f. f \<noteq> ''status'' \<and> f \<noteq> ''updatedAt'' \<and> f \<notin> topField ` fst ` set ?extra
             \<longrightarrow> d' f = ?d f)
      \<and> (\<forall>k v. map_of ?extra k = Some v \<and> topField k \<noteq> ''updatedAt''
                \<and> (topField k = ''status'' \<longrightarrow> k = ''status'')
                \<and> (\<forall>k' \<in> fst ` set ?extra. topField k' = topField k \<longrightarrow> k' = k)
              \<longrightarrow> d' (topField k) = setField (split k ''.'') v ?d (topField k))
      \<and> (''status'' \<notin> topField ` fst ` set ?extra \<longrightarrow> d' ''status'' = Some (VStr ''Accepted''))
      \<and> ((\<forall>k' \<in> fst ` set ?extra. topField k' = ''updatedAt'' \<longrightarrow> k' = ''updatedAt'')
           \<longrightarrow> d' ''updatedAt'' = Some (serverClock demo_world))" ..
  note d' = d [THEN conjunct1]
    and frame = d [THEN conjunct2, THEN conjunct1]
    and extra = d [THEN conjunct2, THEN conjunct2, THEN conjunct1]
    and status = d [THEN conjunct2, THEN conjunct2, THEN conjunct2, THEN conjunct1]
    and stamp = d [THEN conjunct2, THEN conjunct2, THEN conjunct2, THEN conjunct2]
  have "d' ''status'' = Some (VStr ''Accepted'')"
    using status by (simp add: top)
  moreover have "d' ''scheduledDate'' = Some (VStr ''2026-11-10'')"
    using extra [THEN spec, THEN spec, of "''scheduledDate''" "VStr ''2026-11-10''"]
    by (simp add: top)
  moreover have "d' ''updatedAt'' = Some (VTime 1762128000 0)"
    using stamp by (simp add: top clock)
  moreover have "d' ''patientId'' = Some (VStr ''p1'')"
    using frame [THEN spec, of "''patientId''"] by (simp add: top)
  ultimately have "\<exists>d'. map_of (colls (snd ?run) [''appointments'']) ''a1'' = Some d'
          \<and> d' ''status'' = Some (VStr ''Accepted'')
          \<and> d' ''scheduledDate'' = Some (VStr ''2026-11-10'')
          \<and> d' ''updatedAt'' = Some (VTime 1762128000 0)
          \<and> d' ''patientId'' = Some (VStr ''p1'')"
    using d' by (intro exI [of _ d']) simp
  moreover from b have "?bad = (Inl (FirestoreError ''invalid-argument''), demo_world)"
    by (simp add: prod_eq_iff)
  moreover have "\<exists>d'. map_of (colls (snd ?deep) [''appointments'']) ''a1'' = Some d'
          \<and> d' ''doctorInfo'' = Some (VObj [(''name'', VStr ''Dr Sen''), (''room'', VStr ''12'')])
          \<and> d' ''doctorId'' = Some (VStr ''d1'')"
  proof -
    have h4': "distinct (map fst ?nested)" by simp
    have h5': "?deep = (fst ?deep, snd ?deep)" by simp
    have valid': "list_all validFieldPath (map fst ?nested)"
      by code_simp
    have top': "topField ''doctorInfo.name'' = ''doctorInfo''"
      "split ''doctorInfo.name'' ''.'' = [''doctorInfo'', ''name'']"
      by code_simp+
    note n = updateAppointmentStatus_frame [OF h1 h2 h3 h4' h5', THEN conjunct1, THEN mp, OF valid']
    from n [THEN conjunct2, THEN conjunct1]
    obtain d' where e: "map_of (colls (snd ?deep) [''appointments'']) ''a1'' = Some d'
      \<and> (\<forall>f. f \<noteq> ''status'' \<and> f \<noteq> ''updatedAt'' \<and> f \<notin> topField ` fst ` set ?nested
             \<longrightarrow> d' f = ?d f)
      \<and> (\<forall>k v. map_of ?nested k = Some v \<and> topField k \<noteq> ''updatedAt''
                \<and> (topField k = ''status'' \<longrightarrow> k = ''status'')
                \<and> (\<forall>k' \<in> fst ` set ?nested. topField k' = topField k \<longrightarrow> k' = k)
              \<longrightarrow> d' (topField k) = setField (split k ''.'') v ?d (topField k))
      \<and> (''status'' \<notin> topField ` fst ` set ?nested \<longrightarrow> d' ''status'' = Some (VStr ''Accepted''))
      \<and> ((\<forall>k' \<in> fst ` set ?nested. topField k' = ''updatedAt'' \<longrightarrow> k' = ''updatedAt'')
           \<longrightarrow> d' ''updatedAt'' = Some (serverClock demo_world))" ..
    have "d' ''doctorInfo'' = Some (VObj [(''name'', VStr ''Dr Sen''), (''room'', VStr ''12'')])"
      using e [THEN conjunct2, THEN conjunct2, THEN conjunct1, THEN spec, THEN spec,
          of "''doctorInfo.name''" "VStr ''Dr Sen''"]
      by (simp add: top')
    moreover have "d' ''doctorId'' = Some (VStr ''d1'')"
      using e [THEN conjunct2, THEN conjunct1, THEN spec, of "''doctorId''"] by (simp add: top')
    ultimately show ?thesis
      using e [THEN conjunct1] by (intro exI [of _ d']) simp
  qed
  moreover have "list_all validFieldPath (map fst ?nested)"
    by code_simp
  ultimately show ?thesis
    using h1 h2 h3 r valid invalid by simp
qed

text \<open>
  C7 as stated fails for a name with a dot: \<open>doctorInfo.name\<close> is not stored as a field
  of that name. It changes the field \<open>doctorInfo\<close>, which is not a property of
  \<open>additionalData\<close>, by replacing the \<open>name\<close> inside it.
\<close>

theorem updateAppointmentStatus_rewrites_nested_field:
  "map_of [(''doctorInfo.name'', VStr ''Dr Sen'')] ''doctorInfo'' = None
   \<and> (case map_of (colls demo_world [''appointments'']) ''a1'' of
          None \<Rightarrow> None
        | Some d \<Rightarrow> d ''doctorInfo'')
       = Some (VObj [(''name'', VStr ''Dr Rao''), (''room'', VStr ''12'')])
   \<and> fst (updateAppointmentStatus (VStr ''a1'') (VStr ''Accepted'')
             [(''doctorInfo.name'', VStr ''Dr Sen'')] demo_world) = Inr True
   \<and> (case map_of (colls (snd (updateAppointmentStatus (VStr ''a1'') (VStr ''Accepted'')
                 [(''doctorInfo.name'', VStr ''Dr Sen'')] demo_world)) [''appointments'']) ''a1'' of
          None \<Rightarrow> None
        | Some d' \<Rightarrow> d' ''doctorInfo'')
       = Some (VObj [(''name'', VStr ''Dr Sen''), (''room'', VStr ''12'')])
   \<and> (case map_of (colls (snd (updateAppointmentStatus (VStr ''a1'') (VStr ''Accepted'')
                 [(''doctorInfo.name'', VStr ''Dr Sen'')] demo_world)) [''appointments'']) ''a1'' of
          None \<Rightarrow> Some VNull
        | Some d' \<Rightarrow> d' ''doctorInfo.name'')
       = None"
proof -
  let ?run = "updateAppointmentStatus (VStr ''a1'') (VStr ''Accepted'')
                [(''doctorInfo.name'', VStr ''Dr Sen'')] demo_world"
  have a: "map_of [(''doctorInfo.name'', VStr ''Dr Sen'')] ''doctorInfo'' = None"
    by simp
  have b: "(case map_of (colls demo_world [''appointments'']) ''a1'' of
          None \<Rightarrow> None
        | Some d \<Rightarrow> d ''doctorInfo'')
       = Some (VObj [(''name'', VStr ''Dr Rao''), (''room'', VStr ''12'')])"
    by code_simp
  have c: "fst ?run = Inr True"
    by code_simp
  have d: "(case map_of (colls (snd ?run) [''appointments'']) ''a1'' of
          None \<Rightarrow> None
        | Some d' \<Rightarrow> d' ''doctorInfo'')
       = Some (VObj [(''name'', VStr ''Dr Sen''), (''room'', VStr ''12'')])"
    by code_simp
  have e: "(case map_of (colls (snd ?run) [''appointments'']) ''a1'' of
          None \<Rightarrow> Some VNull
        | Some d' \<Rightarrow> d' ''doctorInfo.name'')
       = None"
    by code_simp
  from a b c d e show ?thesis by simp
qed

subsection \<open>Patient with defaults\<close>

lemma getDoc_served:
  "nextFault w = None \<Longrightarrow>
   getDoc r w = (Inr (snd r, map_of (colls w (fst r)) (snd r)),
                 logCall GetDoc (fst r) (Some (snd r)) None w)"
  by (simp add: getDoc_def)

text \<open>
  C10. When the backend serves the read, \<open>getPatientWithDefaults\<close> returns \<open>null\<close> for a
  patient document that does not exist. For one that exists, every field the document
  has is returned with the value stored, whatever it is (the empty string, \<open>0\<close> and \<open>null\<close>
  included); a fallback value appears only under a name the document does not have, and
  a name that is neither in the document nor one of the ten computed ones is absent.
\<close>

theorem getPatientWithDefaults_stored_wins:
  assumes "doc ''patients'' (Some patientId) = Inr (c, i)"
    and "nextFault w = None"
  shows "(map_of (colls w c) i = None \<longrightarrow> fst (getPatientWithDefaults patientId w) = Inr None)
    \<and> (\<forall>data. map_of (colls w c) i = Some data \<longrightarrow>
          (\<exists>p. fst (getPatientWithDefaults patientId w) = Inr (Some p)
             \<and> (\<forall>k v. data k = Some v \<longrightarrow> p k = Some v)
             \<and> (data ''id'' = None \<longrightarrow> p ''id'' = Some (VStr i))
             \<and> (data ''name'' = None \<longrightarrow> p ''name'' = Some (VStr ''Unknown''))
             \<and> (data ''age'' = None \<longrightarrow> p ''age'' = Some (VNum 0))
             \<and> (data ''phoneNumber'' = None \<longrightarrow> p ''phoneNumber'' = Some (VStr ''Not provided''))
             \<and> (data ''email'' = None \<longrightarrow> p ''email'' = Some (VStr ''Not provided''))
             \<and> (data ''address'' = None \<longrightarrow> p ''address'' = Some (VStr ''Not provided''))
             \<and> (data ''bloodGroup'' = None \<longrightarrow> p ''bloodGroup'' = Some (VStr ''Not specified''))
             \<and> (data ''menstrualStatus'' = None
                  \<longrightarrow> p ''menstrualStatus'' = Some (VStr ''Not specified''))
             \<and> (data ''symptoms'' = None \<longrightarrow> p ''symptoms'' = Some (VList []))
             \<and> (data ''medicalHistory'' = None
                  \<longrightarrow> p ''medicalHistory'' = Some (VStr ''No history provided''))
             \<and> (\<forall>k. data k = None \<and> k \<notin> {''id'', ''name'', ''age'', ''phoneNumber'', ''email'',
                       ''address'', ''bloodGroup'', ''menstrualStatus'', ''symptoms'',
                       ''medicalHistory''} \<longrightarrow> p k = None)))"
proof (intro conjI allI impI)
  assume "map_of (colls w c) i = None"
  then show "fst (getPatientWithDefaults patientId w) = Inr None"
    using assms
    by (simp add: getPatientWithDefaults_def of_result_def await_def getDoc_served resolve_def)
next
  fix data
  assume data: "map_of (colls w c) i = Some data"
  let ?p = "([''id'' \<mapsto> VStr i] ++ patientDefaults data) ++ data"
  have run: "fst (getPatientWithDefaults patientId w) = Inr (Some ?p)"
    using assms data
    by (simp add: getPatientWithDefaults_def of_result_def await_def getDoc_served resolve_def)
  have kept: "?p k = Some v" if "data k = Some v" for k v
    using that by (simp add: map_add_def)
  have absent: "?p k = ([''id'' \<mapsto> VStr i] ++ patientDefaults data) k" if "data k = None" for k
    using that by (simp add: map_add_def)
  show "\<exists>p. fst (getPatientWithDefaults patientId w) = Inr (Some p)
             \<and> (\<forall>k v. data k = Some v \<longrightarrow> p k = Some v)
             \<and> (data ''id'' = None \<longrightarrow> p ''id'' = Some (VStr i))
             \<and> (data ''name'' = None \<longrightarrow> p ''name'' = Some (VStr ''Unknown''))
             \<and> (data ''age'' = None \<longrightarrow> p ''age'' = Some (VNum 0))
             \<and> (data ''phoneNumber'' = None \<longrightarrow> p ''phoneNumber'' = Some (VStr ''Not provided''))
             \<and> (data ''email'' = None \<longrightarrow> p ''email'' = Some (VStr ''Not provided''))
             \<and> (data ''address'' = None \<longrightarrow> p ''address'' = Some (VStr ''Not provided''))
             \<and> (data ''bloodGroup'' = None \<longrightarrow> p ''bloodGroup'' = Some (VStr ''Not specified''))
             \<and> (data ''menstrualStatus'' = None
                  \<longrightarrow> p ''menstrualStatus'' = Some (VStr ''Not specified''))
             \<and> (data ''symptoms'' = None \<longrightarrow> p ''symptoms'' = Some (VList []))
             \<and> (data ''medicalHistory'' = None
                  \<longrightarrow> p ''medicalHistory'' = Some (VStr ''No history provided''))
             \<and> (\<forall>k. data k = None \<and> k \<notin> {''id'', ''name'', ''age'', ''phoneNumber'', ''email'',
                       ''address'', ''bloodGroup'', ''menstrualStatus'', ''symptoms'',
                       ''medicalHistory''} \<longrightarrow> p k = None)"
  proof (rule exI [of _ ?p], intro conjI allI impI)
    show "fst (getPatientWithDefaults patientId w) = Inr (Some ?p)" by (rule run)
  qed (simp_all add: kept absent patientDefaults_def or_js_def map_add_def)
qed


theorem getPatientWithDefaults_stored_wins_witness:
  "doc ''patients'' (Some (VStr ''p1'')) = Inr ([''patients''], ''p1'')
   \<and> nextFault demo_world = None
   \<and> (\<exists>data. map_of (colls demo_world [''patients'']) ''p1'' = Some data
          \<and> data ''email'' = Some (VStr []) \<and> data ''phoneNumber'' = None)
   \<and> (\<exists>p. fst (getPatientWithDefaults (VStr ''p1'') demo_world) = Inr (Some p)
          \<and> p ''email'' = Some (VStr [])
          \<and> p ''age'' = Some (VNum 34)
          \<and> p ''phoneNumber'' = Some (VStr ''Not provided''))"
proof -
  let ?data = "[''name'' \<mapsto> VStr ''Asha'', ''age'' \<mapsto> VNum 34, ''email'' \<mapsto> VStr []]"
  have h1: "doc ''patients'' (Some (VStr ''p1'')) = Inr ([''patients''], ''p1'')"
    by (simp add: doc_def split_def)
  have h2: "nextFault demo_world = None"
    by (simp add: demo_world_def nextFault_def)
  have h3: "map_of (colls demo_world [''patients'']) ''p1'' = Some ?data"
    by (simp add: demo_world_def)
  from getPatientWithDefaults_stored_wins [OF h1 h2, THEN conjunct2, THEN spec, THEN mp, OF h3]
  obtain p where p: "fst (getPatientWithDefaults (VStr ''p1'') demo_world) = Inr (Some p)
      \<and> (\<forall>k v. ?data k = Some v \<longrightarrow> p k = Some v)
      \<and> (?data ''id'' = None \<longrightarrow> p ''id'' = Some (VStr ''p1''))
      \<and> (?data ''name'' = None \<longrightarrow> p ''name'' = Some (VStr ''Unknown''))
      \<and> (?data ''age'' = None \<longrightarrow> p ''age'' = Some (VNum 0))
      \<and> (?data ''phoneNumber'' = None \<longrightarrow> p ''phoneNumber'' = Some (VStr ''Not provided''))"
    by (elim exE conjE) (intro conjI that [of p for p], assumption+)
  note run = p [THEN conjunct1]
    and kept = p [THEN conjunct2, THEN conjunct1, THEN spec, THEN spec, THEN mp]
    and phone = p [THEN conjunct2, THEN conjunct2, THEN conjunct2, THEN conjunct2, THEN conjunct2,
        THEN mp]
  have "p ''email'' = Some (VStr [])"
    using kept [of "''email''" "VStr []"] by simp
  moreover have "p ''age'' = Some (VNum 34)"
    using kept [of "''age''" "VNum 34"] by simp
  moreover have "p ''phoneNumber'' = Some (VStr ''Not provided'')"
    using phone by simp
  ultimately show ?thesis
    using h1 h2 h3 run by simp
qed

subsection \<open>Rules for runs\<close>

lemma leaves_resolve: "leaves c (resolve x)"
  by (simp add: leaves_def resolve_def)

lemma leaves_of_result: "leaves c (of_result r)"
  by (simp add: leaves_def of_result_def)

lemma leaves_await:
  assumes "leaves c m" and "\<And>x. leaves c (k x)"
  shows "leaves c (await m k)"
  unfolding leaves_def
proof
  fix w
  show "colls (snd (await m k w)) c = colls w c"
  proof (cases "m w")
    case (Pair r w1)
    from assms(1) Pair have w1: "colls w1 c = colls w c"
      by (auto simp: leaves_def dest: spec [of _ w])
    show ?thesis
    proof (cases r)
      case (Inl e)
      with Pair w1 show ?thesis by (simp add: await_def)
    next
      case (Inr x)
      from assms(2) [of x] have "colls (snd (k x w1)) c = colls w1 c"
        by (simp add: leaves_def)
      with Pair Inr w1 show ?thesis by (simp add: await_def)
    qed
  qed
qed

lemma leaves_if_truthy:
  assumes "\<And>v. leaves c (body v)"
  shows "leaves c (if_truthy x body)"
  using assms by (simp add: if_truthy_def leaves_resolve split: option.splits)

lemma leaves_getDoc: "leaves c (getDoc r)"
  by (simp add: leaves_def getDoc_def logCall_def split: option.splits)

lemma leaves_addDoc: "c \<noteq> c' \<Longrightarrow> leaves c (addDoc c' data)"
  by (simp add: leaves_def addDoc_def logCall_def Let_def split: option.splits)

lemma leaves_getPatient: "leaves c (getPatient patientId)"
  unfolding getPatient_def
  by (intro leaves_await leaves_of_result leaves_getDoc)
     (simp add: leaves_resolve split: option.splits)

lemma leaves_getScreeningRecord: "leaves c (getScreeningRecord screeningId)"
  unfolding getScreeningRecord_def
  by (intro leaves_await leaves_of_result leaves_getDoc leaves_resolve)

lemma leaves_createNotification:
  "c \<noteq> [''notifications''] \<Longrightarrow> leaves c (createNotification recipientId type title message data)"
  unfolding createNotification_def
  by (intro leaves_await leaves_addDoc leaves_resolve)

lemma fits_append:
  assumes "list_all served new1" and "fits r new2"
  shows "fits r (new1 @ new2)"
proof (cases r)
  case (Inr x)
  with assms show ?thesis by simp
next
  case (Inl e)
  show ?thesis
  proof (cases "new2 = []")
    case True
    with assms Inl show ?thesis
      by (cases new1 rule: rev_cases) (auto simp: served_def)
  next
    case False
    with assms Inl show ?thesis by (simp add: butlast_append)
  qed
qed

lemma makes_resolve: "makes n Q (resolve x)"
  by (simp add: makes_def resolve_def)


lemma makes_of_result: "makes n Q (of_result r)"
  by (cases r) (simp_all add: makes_def of_result_def)

lemma makes_mono: "makes n Q m \<Longrightarrow> n \<le> n' \<Longrightarrow> makes n' Q m"
  unfolding makes_def by (meson le_trans)

lemma makes_await:
  assumes "makes n1 Q m" and "\<And>x. makes n2 Q (k x)"
  shows "makes (n1 + n2) Q (await m k)"
  unfolding makes_def
proof
  fix w
  obtain r w1 where mw: "m w = (r, w1)" by (cases "m w")
  from assms(1) mw obtain new1 where
    new1: "calls w1 = calls w @ new1" "length new1 \<le> n1" "list_all Q new1" "fits r new1"
    unfolding makes_def by (metis fst_conv snd_conv)
  show "\<exists>new. calls (snd (await m k w)) = calls w @ new \<and> length new \<le> n1 + n2
          \<and> list_all Q new \<and> fits (fst (await m k w)) new"
  proof (cases r)
    case (Inl e)
    with mw new1 show ?thesis
      by (intro exI [of _ new1]) (simp add: await_def)
  next
    case (Inr x)
    obtain r2 w2 where kw: "k x w1 = (r2, w2)" by (cases "k x w1")
    from assms(2) [of x] kw obtain new2 where
      new2: "calls w2 = calls w1 @ new2" "length new2 \<le> n2" "list_all Q new2" "fits r2 new2"
      unfolding makes_def by (metis fst_conv snd_conv)
    from new1(4) Inr have "list_all served new1" by simp
    then have "fits r2 (new1 @ new2)" using new2(4) by (rule fits_append)
    with mw Inr kw new1 new2 show ?thesis
      by (intro exI [of _ "new1 @ new2"]) (simp add: await_def)
  qed
qed

lemma makes_if_truthy:
  assumes "\<And>v. makes n Q (body v)"
  shows "makes n Q (if_truthy x body)"
  using assms by (simp add: if_truthy_def makes_resolve split: option.splits)

lemma makes_getDoc:
  assumes "\<And>r'. Q \<lparr>fn = GetDoc, path = fst r, target = Some (snd r), rejected = r'\<rparr>"
  shows "makes (Suc 0) Q (getDoc r)"
  unfolding makes_def
proof
  fix w
  show "\<exists>new. calls (snd (getDoc r w)) = calls w @ new \<and> length new \<le> Suc 0
          \<and> list_all Q new \<and> fits (fst (getDoc r w)) new"
    by (rule exI [of _ "[\<lparr>fn = GetDoc, path = fst r, target = Some (snd r), rejected = nextFault w\<rparr>]"])
       (auto simp: getDoc_def logCall_def served_def assms split: option.splits)
qed

lemma makes_addDoc:
  assumes "\<And>t r'. Q \<lparr>fn = AddDoc, path = c, target = t, rejected = r'\<rparr>"
  shows "makes (Suc 0) Q (addDoc c data)"
  unfolding makes_def
proof
  fix w
  let ?k = "\<lparr>fn = AddDoc, path = c, target = Some (idSource w (idCount w)),
             rejected = (case nextFault w of Some e \<Rightarrow> Some e
                         | None \<Rightarrow> (case map_of (colls w c) (idSource w (idCount w)) of
                                      Some d \<Rightarrow> Some (FirestoreError ''already-exists'')
                                    | None \<Rightarrow> None))\<rparr>"
  show "\<exists>new. calls (snd (addDoc c data w)) = calls w @ new \<and> length new \<le> Suc 0
          \<and> list_all Q new \<and> fits (fst (addDoc c data w)) new"
    by (rule exI [of _ "[?k]"])
       (auto simp: addDoc_def logCall_def served_def assms Let_def split: option.splits)
qed

lemma fits_rejected:
  assumes "fits r later" and "later \<noteq> []" and "rejected (last later) = Some e"
  shows "r = Inl e"
proof (cases r)
  case (Inr x)
  with assms(1) have "list_all served later" by simp
  with assms(2) have "served (last later)" by (simp add: list_all_iff)
  with assms(3) show ?thesis by (simp add: served_def)
next
  case (Inl e')
  with assms show ?thesis by simp
qed

lemma reports_resolve: "P x \<Longrightarrow> reports P (resolve x)"
  by (simp add: reports_def resolve_def)

lemma reports_await:
  assumes "reports P m" and "\<And>x. reports Q (k x)"
  shows "reports Q (await m k)"
  unfolding reports_def
proof
  fix w
  obtain r w1 where mw: "m w = (r, w1)" by (cases "m w")
  from assms(1) have "\<exists>new. calls (snd (m w)) = calls w @ new
      \<and> (case fst (m w) of Inr x \<Rightarrow> P x | Inl e \<Rightarrow> new \<noteq> [] \<and> rejected (last new) = Some e)"
    unfolding reports_def by (rule spec)
  then obtain new1 where n1: "calls (snd (m w)) = calls w @ new1
      \<and> (case fst (m w) of Inr x \<Rightarrow> P x | Inl e \<Rightarrow> new1 \<noteq> [] \<and> rejected (last new1) = Some e)" ..
  show "\<exists>new. calls (snd (await m k w)) = calls w @ new
      \<and> (case fst (await m k w) of Inr x \<Rightarrow> Q x
          | Inl e \<Rightarrow> new \<noteq> [] \<and> rejected (last new) = Some e)"
  proof (cases r)
    case (Inl e)
    with mw n1 show ?thesis
      by (intro exI [of _ new1]) (simp add: await_def)
  next
    case (Inr x)
    from assms(2) [of x] have "\<exists>new. calls (snd (k x w1)) = calls w1 @ new
      \<and> (case fst (k x w1) of Inr y \<Rightarrow> Q y | Inl e \<Rightarrow> new \<noteq> [] \<and> rejected (last new) = Some e)"
      unfolding reports_def by (rule spec)
    then obtain new2 where n2: "calls (snd (k x w1)) = calls w1 @ new2
      \<and> (case fst (k x w1) of Inr y \<Rightarrow> Q y | Inl e \<Rightarrow> new2 \<noteq> [] \<and> rejected (last new2) = Some e)" ..
    from mw Inr n1 n2 show ?thesis
      by (intro exI [of _ "new1 @ new2"]) (auto simp: await_def split: sum.splits)
  qed
qed

lemma reports_getDoc: "reports (\<lambda>_. True) (getDoc r)"
  unfolding reports_def
proof
  fix w
  show "\<exists>new. calls (snd (getDoc r w)) = calls w @ new
      \<and> (case fst (getDoc r w) of Inr x \<Rightarrow> True
          | Inl e \<Rightarrow> new \<noteq> [] \<and> rejected (last new) = Some e)"
    by (rule exI [of _ "[\<lparr>fn = GetDoc, path = fst r, target = Some (snd r), rejected = nextFault w\<rparr>]"])
       (simp add: getDoc_def logCall_def split: option.splits)
qed

lemma reports_addDoc: "reports (\<lambda>_. True) (addDoc c data)"
  unfolding reports_def
proof
  fix w
  let ?k = "\<lparr>fn = AddDoc, path = c, target = Some (idSource w (idCount w)),
             rejected = (case nextFault w of Some e \<Rightarrow> Some e
                         | None \<Rightarrow> (case map_of (colls w c) (idSource w (idCount w)) of
                                      Some d \<Rightarrow> Some (FirestoreError ''already-exists'')
                                    | None \<Rightarrow> None))\<rparr>"
  show "\<exists>new. calls (snd (addDoc c data w)) = calls w @ new
      \<and> (case fst (addDoc c data w) of Inr x \<Rightarrow> True
          | Inl e \<Rightarrow> new \<noteq> [] \<and> rejected (last new) = Some e)"
    by (rule exI [of _ "[?k]"])
       (simp add: addDoc_def logCall_def Let_def split: option.splits)
qed

lemma reports_case_option:
  assumes "reports P a" and "\<And>x. reports P (b x)"
  shows "reports P (case y of None \<Rightarrow> a | Some x \<Rightarrow> b x)"
  using assms by (cases y) simp_all

lemma reports_notify:
  "reports (\<lambda>_. True)
     (if_truthy x (\<lambda>v. await (createNotification (f v) a b c d) (\<lambda>_. resolve ())))"
proof -
  have "reports (\<lambda>_. True) (await (createNotification r a b c d) (\<lambda>_. resolve ()))" for r
    unfolding createNotification_def
    by (intro reports_await [where P = "\<lambda>_. True"] reports_addDoc reports_resolve) simp_all
  then show ?thesis
    by (simp add: if_truthy_def reports_resolve split: option.splits)
qed


subsection \<open>Reviewing a screening\<close>

lemma doc_collection:
  assumes "doc name x = Inr (c, i)"
  shows "c \<noteq> [] \<and> hd c = name"
proof -
  from assms obtain p where x: "x = Some (VStr p)"
    by (auto simp: doc_def split: option.splits jsval.splits)
  let ?segs = "filter (\<lambda>s. s \<noteq> []) (split p ''/'')"
  from assms x have ev: "even (length (name # ?segs))" and c: "c = butlast (name # ?segs)"
    by (auto simp: doc_def Let_def split: if_splits)
  from ev have "?segs \<noteq> []" by auto
  with c show ?thesis by simp
qed

lemma makes_getPatient:
  assumes "\<And>k. fn k = GetDoc \<Longrightarrow> Q k"
  shows "makes (Suc 0) Q (getPatient patientId)"
proof -
  have "makes (0 + (Suc 0 + 0)) Q (getPatient patientId)"
    unfolding getPatient_def
    by (intro makes_await makes_of_result makes_getDoc)
       (simp_all add: assms makes_resolve split: option.splits)
  then show ?thesis by simp
qed

lemma makes_getScreeningRecord:
  assumes "\<And>k. fn k = GetDoc \<Longrightarrow> Q k"
  shows "makes (Suc 0) Q (getScreeningRecord screeningId)"
proof -
  have "makes (0 + (Suc 0 + 0)) Q (getScreeningRecord screeningId)"
    unfolding getScreeningRecord_def
    by (intro makes_await makes_of_result makes_getDoc makes_resolve) (simp add: assms)
  then show ?thesis by simp
qed

lemma makes_createNotification:
  assumes "\<And>k. fn k = AddDoc \<and> path k = [''notifications''] \<Longrightarrow> Q k"
  shows "makes (Suc 0) Q (createNotification recipientId type title message data)"
proof -
  have "makes (Suc 0 + 0) Q (createNotification recipientId type title message data)"
    unfolding createNotification_def
    by (intro makes_await makes_addDoc makes_resolve) (simp add: assms)
  then show ?thesis by simp
qed

lemma leaves_case_option:
  assumes "leaves c a" and "\<And>x. leaves c (b x)"
  shows "leaves c (case y of None \<Rightarrow> a | Some x \<Rightarrow> b x)"
  using assms by (cases y) simp_all

lemma makes_case_option:
  assumes "makes n Q a" and "\<And>x. makes n Q (b x)"
  shows "makes n Q (case y of None \<Rightarrow> a | Some x \<Rightarrow> b x)"
  using assms by (cases y) simp_all

lemma makes_await_le:
  assumes "makes n1 Q m" and "\<And>x. makes n2 Q (k x)" and "n1 + n2 \<le> n"
  shows "makes n Q (await m k)"
  using makes_await [OF assms(1,2)] assms(3) by (rule makes_mono)

lemma updateScreeningReview_run:
  assumes ref: "doc ''screenings'' (Some screeningId) = Inr (c, i)"
    and served: "nextFault w = None"
    and present: "map_of (colls w c) i = Some d"
    and run: "updateScreeningReview screeningId reviewStatus doctorComments doctorId w = (r, w')"
  shows "map_of (colls w' c) i
           = Some (d ++ reviewFields reviewStatus doctorComments doctorId (serverClock w))
    \<and> (\<exists>later. calls w' = calls w
                   @ \<lparr>fn = UpdateDoc, path = c, target = Some i, rejected = None\<rparr> # later
          \<and> length later \<le> 4 \<and> list_all after_review later \<and> fits r later
          \<and> (list_all served later \<longrightarrow>
                (case doc ''patients''
                        ((d ++ reviewFields reviewStatus doctorComments doctorId (serverClock w))
                           ''patientId'') of
                   Inl e \<Rightarrow> r = Inl e
                 | Inr patientRef \<Rightarrow> r = Inr True)))"
proof -
  define notify where "notify =
     (\<lambda>sd. \<lambda>patientData :: obj option.
         let patientName =
               (case patientData of
                  Some pd \<Rightarrow> pd ''name''
                | None \<Rightarrow> Some (VStr ''the patient'')) in
         await (if_truthy (sd ''healthcareWorkerId'') (\<lambda>healthcareWorkerId.
                  await (createNotification healthcareWorkerId (VStr ''ReviewCompleted'')
                           (VStr ''Review Completed'')
                           (VStr (''The screening report for '' @ template patientName
                                  @ '' has been reviewed.''))
                           (VObj [(''screeningId'', screeningId)])) (\<lambda>_. resolve ()))) (\<lambda>_.
         await (if_truthy (sd ''patientId'') (\<lambda>patientId.
                  await (createNotification patientId (VStr ''ReviewCompleted'')
                           (VStr ''Review Completed'')
                           (VStr ''Your screening report has been reviewed by the doctor.'')
                           (VObj [(''screeningId'', screeningId)])) (\<lambda>_. resolve ()))) (\<lambda>_.
         resolve True)))"
  define rest where "rest =
     await (getScreeningRecord screeningId) (\<lambda>screeningData.
     case screeningData of
       None \<Rightarrow> resolve True
     | Some sd \<Rightarrow> await (getPatient (sd ''patientId'')) (notify sd))"
  let ?d' = "d ++ reviewFields reviewStatus doctorComments doctorId (serverClock w)"
  let ?w1 = "logCall UpdateDoc c (Some i) None
               (w\<lparr>colls := (colls w)(c := AList.update i ?d' (colls w c))\<rparr>)"
  let ?fields = "\<lambda>ts. [(''reviewStatus'', reviewStatus), (''doctorComments'', doctorComments),
               (''doctorId'', doctorId), (''status'', VStr ''Reviewed''),
               (''updatedAt'', ts)]"
  have s1: "of_result (doc ''screenings'' (Some screeningId)) w = (Inr (c, i), w)"
    using ref by (simp add: of_result_def)
  have written: "applyFields
       [([''reviewStatus''], reviewStatus), ([''doctorComments''], doctorComments),
        ([''doctorId''], doctorId), ([''status''], VStr ''Reviewed''),
        ([''updatedAt''], serverClock w)] d = ?d'"
    by (simp add: applyFields_def reviewFields_def)
  have s2: "updateDoc (c, i) ?fields w = (Inr (), ?w1)"
    using served present by (simp add: updateDoc_def own_fieldPaths written)
  note a1 = await_Inr [where m = "of_result (doc ''screenings'' (Some screeningId))" and w = w,
      OF s1]
  note a2 = await_Inr [where m = "updateDoc (c, i) ?fields" and w = w, OF s2]
  have unfold: "updateScreeningReview screeningId reviewStatus doctorComments doctorId w = rest ?w1"
    unfolding updateScreeningReview_def rest_def notify_def
    by (simp only: a1 a2)
  from doc_collection [OF ref] have ne: "c \<noteq> [''notifications'']" by auto
  have "leaves c rest"
    unfolding rest_def notify_def Let_def
    by (intro leaves_await leaves_case_option leaves_getScreeningRecord leaves_getPatient
        leaves_if_truthy leaves_createNotification [OF ne] leaves_resolve)
  then have kept: "colls (snd (rest ?w1)) c = colls ?w1 c"
    by (simp add: leaves_def)
  from run [unfolded unfold] have eq: "rest ?w1 = (r, w')" .
  have r: "r = fst (rest ?w1)" and w': "w' = snd (rest ?w1)"
    unfolding eq by simp_all
  have stored: "map_of (colls w' c) i = Some ?d'"
    unfolding w' kept by (simp add: logCall_def update_conv')
  have "makes 4 after_review rest"
    unfolding rest_def notify_def Let_def
    apply (rule makes_await_le [where ?n1.0 = "Suc 0" and ?n2.0 = 3])
      apply (rule makes_getScreeningRecord, simp add: after_review_def)
     apply (rule makes_case_option)
      apply (rule makes_resolve)
     apply (rule makes_await_le [where ?n1.0 = "Suc 0" and ?n2.0 = 2])
       apply (rule makes_getPatient, simp add: after_review_def)
      apply (rule makes_await_le [where ?n1.0 = "Suc 0" and ?n2.0 = "Suc 0"])
        apply (rule makes_if_truthy)
        apply (rule makes_await_le [where ?n1.0 = "Suc 0" and ?n2.0 = 0])
          apply (rule makes_createNotification, simp add: after_review_def)
         apply (rule makes_resolve)
        apply simp
       apply (rule makes_await_le [where ?n1.0 = "Suc 0" and ?n2.0 = 0])
         apply (rule makes_if_truthy)
         apply (rule makes_await_le [where ?n1.0 = "Suc 0" and ?n2.0 = 0])
           apply (rule makes_createNotification, simp add: after_review_def)
          apply (rule makes_resolve)
         apply simp
        apply (rule makes_resolve)
       apply simp
      apply simp
     apply simp
    apply simp
    done
  then have "\<forall>w. \<exists>new. calls (snd (rest w)) = calls w @ new \<and> length new \<le> 4
      \<and> list_all after_review new \<and> fits (fst (rest w)) new"
    unfolding makes_def .
  then have "\<exists>new. calls (snd (rest ?w1)) = calls ?w1 @ new \<and> length new \<le> 4
      \<and> list_all after_review new \<and> fits (fst (rest ?w1)) new"
    by (rule spec)
  then obtain later where L: "calls (snd (rest ?w1)) = calls ?w1 @ later \<and> length later \<le> 4
      \<and> list_all after_review later \<and> fits (fst (rest ?w1)) later" ..
  note later = L [THEN conjunct1] L [THEN conjunct2, THEN conjunct1]
    L [THEN conjunct2, THEN conjunct2, THEN conjunct1]
    L [THEN conjunct2, THEN conjunct2, THEN conjunct2]
  from later(1) have log: "calls w' = calls w
        @ \<lparr>fn = UpdateDoc, path = c, target = Some i, rejected = None\<rparr> # later"
    unfolding w' by (simp add: logCall_def)
  from later(4) have fit: "fits r later"
    unfolding r .
  have outcome: "(case doc ''patients'' (?d' ''patientId'') of
                   Inl e \<Rightarrow> r = Inl e
                 | Inr patientRef \<Rightarrow> r = Inr True)"
    if all: "list_all served later"
  proof (cases "nextFault ?w1")
    case (Some e)
    have "rest ?w1 = (Inl e, logCall GetDoc c (Some i) (Some e) ?w1)"
      unfolding rest_def using ref Some
      by (simp add: getScreeningRecord_def of_result_def await_def getDoc_def)
    then have "calls (snd (rest ?w1))
        = calls ?w1 @ [\<lparr>fn = GetDoc, path = c, target = Some i, rejected = Some e\<rparr>]"
      by (simp add: logCall_def)
    with later(1) have "later = [\<lparr>fn = GetDoc, path = c, target = Some i, rejected = Some e\<rparr>]"
      by simp
    with all show ?thesis by (simp add: served_def)
  next
    case None
    let ?k1 = "\<lparr>fn = GetDoc, path = c, target = Some i, rejected = None\<rparr>"
    let ?w2 = "logCall GetDoc c (Some i) None ?w1"
    have doc1: "map_of (colls ?w1 c) i = Some ?d'"
      by (simp add: logCall_def update_conv')
    have "getScreeningRecord screeningId ?w1 = (Inr (Some ?d'), ?w2)"
      using ref None doc1
      by (simp add: getScreeningRecord_def of_result_def await_def getDoc_def resolve_def)
    then have step: "rest ?w1 = await (getPatient (?d' ''patientId'')) (notify ?d') ?w2"
      unfolding rest_def by (simp add: await_def)
    show ?thesis
    proof (cases "doc ''patients'' (?d' ''patientId'')")
      case (Inl e)
      then have "await (getPatient (?d' ''patientId'')) (notify ?d') ?w2 = (Inl e, ?w2)"
        by (simp add: getPatient_def of_result_def await_def)
      with step eq have "r = Inl e" by simp
      with Inl show ?thesis by simp
    next
      case (Inr pr)
      have getP: "getPatient (?d' ''patientId'')
          = await (getDoc pr) (\<lambda>patientDoc.
              case snd patientDoc of
                Some d \<Rightarrow> resolve (Some ([''id'' \<mapsto> VStr (fst patientDoc)] ++ d))
              | None \<Rightarrow> resolve None)"
        unfolding getPatient_def Inr
        by (intro ext) (simp add: await_def of_result_def)
      have "reports (\<lambda>b. b) (await (getPatient (?d' ''patientId'')) (notify ?d'))"
        unfolding getP notify_def Let_def
        apply (rule reports_await [where P = "\<lambda>_. True"])
         apply (rule reports_await [where P = "\<lambda>_. True"])
          apply (rule reports_getDoc)
         apply (rule reports_case_option)
          apply (rule reports_resolve, simp)
         apply (rule reports_resolve, simp)
        apply (rule reports_await [where P = "\<lambda>_. True"])
         apply (rule reports_notify)
        apply (rule reports_await [where P = "\<lambda>_. True"])
         apply (rule reports_notify)
        apply (rule reports_resolve, simp)
        done
      then have "\<exists>new. calls (snd (await (getPatient (?d' ''patientId'')) (notify ?d') ?w2))
            = calls ?w2 @ new
          \<and> (case fst (await (getPatient (?d' ''patientId'')) (notify ?d') ?w2) of
                Inr x \<Rightarrow> x
              | Inl e \<Rightarrow> new \<noteq> [] \<and> rejected (last new) = Some e)"
        unfolding reports_def by (rule spec)
      then obtain new where N: "calls (snd (rest ?w1)) = calls ?w2 @ new
          \<and> (case fst (rest ?w1) of
                Inr x \<Rightarrow> x
              | Inl e \<Rightarrow> new \<noteq> [] \<and> rejected (last new) = Some e)"
        unfolding step ..
      from N [THEN conjunct1] later(1) have "later = ?k1 # new"
        by (simp add: logCall_def)
      with all have srv: "list_all served new" by simp
      have "r = Inr True"
      proof (cases "fst (rest ?w1)")
        case (Inl e)
        with N have "new \<noteq> []" and "rejected (last new) = Some e" by simp_all
        moreover from srv \<open>new \<noteq> []\<close> have "served (last new)"
          by (simp add: list_all_iff)
        ultimately show ?thesis by (simp add: served_def)
      next
        case (Inr x)
        with N have x by simp
        with Inr show ?thesis unfolding r by simp
      qed
      with Inr show ?thesis by simp
    qed
  qed
  show ?thesis
  proof (intro conjI)
    show "map_of (colls w' c) i
           = Some (d ++ reviewFields reviewStatus doctorComments doctorId (serverClock w))"
      by (rule stored)
    show "\<exists>later. calls w' = calls w
                   @ \<lparr>fn = UpdateDoc, path = c, target = Some i, rejected = None\<rparr> # later
          \<and> length later \<le> 4 \<and> list_all after_review later \<and> fits r later
          \<and> (list_all served later \<longrightarrow>
                (case doc ''patients''
                        ((d ++ reviewFields reviewStatus doctorComments doctorId (serverClock w))
                           ''patientId'') of
                   Inl e \<Rightarrow> r = Inl e
                 | Inr patientRef \<Rightarrow> r = Inr True))"
      by (rule exI [of _ later], intro conjI impI) (fact log later(2) later(3) fit outcome)+
  qed
qed


text \<open>
  C1. When the screening document exists and the backend serves the update,
  \<open>updateScreeningReview\<close> leaves the document with \<open>reviewStatus\<close>, \<open>doctorComments\<close> and
  \<open>doctorId\<close> equal to the three arguments, \<open>status\<close> equal to \<open>Reviewed\<close> and \<open>updatedAt\<close>
  equal to the server's time, whatever the document held before and however the rest of
  the run ends; every other field of the document is as before.
\<close>

theorem updateScreeningReview_writes_review:
  assumes "doc ''screenings'' (Some screeningId) = Inr (c, i)"
    and "nextFault w = None"
    and "map_of (colls w c) i = Some d"
    and "updateScreeningReview screeningId reviewStatus doctorComments doctorId w = (r, w')"
  shows "\<exists>d'. map_of (colls w' c) i = Some d'
     \<and> d' ''reviewStatus'' = Some reviewStatus
     \<and> d' ''doctorComments'' = Some doctorComments
     \<and> d' ''doctorId'' = Some doctorId
     \<and> d' ''status'' = Some (VStr ''Reviewed'')
     \<and> d' ''updatedAt'' = Some (serverClock w)
     \<and> (\<forall>k. k \<notin> {''reviewStatus'', ''doctorComments'', ''doctorId'', ''status'', ''updatedAt''}
            \<longrightarrow> d' k = d k)"
proof -
  let ?d' = "d ++ reviewFields reviewStatus doctorComments doctorId (serverClock w)"
  from updateScreeningReview_run [OF assms]
  have stored: "map_of (colls w' c) i = Some ?d'" by (rule conjunct1)
  show ?thesis
  proof (rule exI [of _ ?d'], intro conjI allI impI)
    show "map_of (colls w' c) i = Some ?d'" by (rule stored)
  qed (simp_all add: reviewFields_def map_add_def)
qed

theorem updateScreeningReview_writes_review_witness:
  "doc ''screenings'' (Some (VStr ''s1'')) = Inr ([''screenings''], ''s1'')
   \<and> nextFault demo_world = None
   \<and> (\<exists>d. map_of (colls demo_world [''screenings'']) ''s1'' = Some d
          \<and> d ''status'' = Some (VStr ''Uploaded''))
   \<and> fst (updateScreeningReview (VStr ''s1'') (VStr ''Normal'') (VStr ''No lesion seen'')
             (VStr ''d1'') demo_world) = Inr True
   \<and> (\<exists>d'. map_of (colls (snd (updateScreeningReview (VStr ''s1'') (VStr ''Normal'')
                 (VStr ''No lesion seen'') (VStr ''d1'') demo_world)) [''screenings'']) ''s1''
               = Some d'
          \<and> d' ''reviewStatus'' = Some (VStr ''Normal'')
          \<and> d' ''doctorComments'' = Some (VStr ''No lesion seen'')
          \<and> d' ''doctorId'' = Some (VStr ''d1'')
          \<and> d' ''status'' = Some (VStr ''Reviewed'')
          \<and> d' ''patientId'' = Some (VStr ''p1''))"
proof -
  let ?run = "updateScreeningReview (VStr ''s1'') (VStr ''Normal'') (VStr ''No lesion seen'')
                (VStr ''d1'') demo_world"
  let ?d = "[''patientId'' \<mapsto> VStr ''p1'', ''healthcareWorkerId'' \<mapsto> VStr ''h1'',
             ''imageUrl'' \<mapsto> VStr ''https://cdn.example/image/upload/v1/a.jpg'',
             ''status'' \<mapsto> VStr ''Uploaded'']"
  have h1: "doc ''screenings'' (Some (VStr ''s1'')) = Inr ([''screenings''], ''s1'')"
    by (simp add: doc_def split_def)
  have h2: "nextFault demo_world = None"
    by (simp add: demo_world_def nextFault_def)
  have h3: "map_of (colls demo_world [''screenings'']) ''s1'' = Some ?d"
    by (simp add: demo_world_def)
  have h4: "?run = (fst ?run, snd ?run)"
    by simp
  have ok: "fst ?run = Inr True"
    by code_simp
  from updateScreeningReview_writes_review [OF h1 h2 h3 h4]
  obtain d' where d: "map_of (colls (snd ?run) [''screenings'']) ''s1'' = Some d'
     \<and> d' ''reviewStatus'' = Some (VStr ''Normal'')
     \<and> d' ''doctorComments'' = Some (VStr ''No lesion seen'')
     \<and> d' ''doctorId'' = Some (VStr ''d1'')
     \<and> d' ''status'' = Some (VStr ''Reviewed'')
     \<and> d' ''updatedAt'' = Some (serverClock demo_world)
     \<and> (\<forall>k. k \<notin> {''reviewStatus'', ''doctorComments'', ''doctorId'', ''status'', ''updatedAt''}
            \<longrightarrow> d' k = ?d k)" ..
  have "d' ''patientId'' = Some (VStr ''p1'')"
    using d [THEN conjunct2, THEN conjunct2, THEN conjunct2, THEN conjunct2, THEN conjunct2,
        THEN conjunct2, THEN spec, of "''patientId''"] by simp
  with d have "\<exists>d'. map_of (colls (snd ?run) [''screenings'']) ''s1'' = Some d'
          \<and> d' ''reviewStatus'' = Some (VStr ''Normal'')
          \<and> d' ''doctorComments'' = Some (VStr ''No lesion seen'')
          \<and> d' ''doctorId'' = Some (VStr ''d1'')
          \<and> d' ''status'' = Some (VStr ''Reviewed'')
          \<and> d' ''patientId'' = Some (VStr ''p1'')"
    by (intro exI [of _ d']) simp
  with h1 h2 h3 ok show ?thesis by simp
qed

text \<open>
  C6. When the screening document exists and the backend serves the update, then however
  the run ends: the screening document holds the review fields and the status
  \<open>Reviewed\<close>. After the update at most four more calls were made, each a read or the
  creation of a notification, so nothing wrote to the screening again, neither to undo the
  update nor to repeat it; every call before the last was served, so nothing was
  attempted after a rejected call. The outcome follows from what happened: if the last
  call was rejected with an error, the function throws that very error; if no call was
  rejected, the function throws the error of \<open>doc\<close> when the screening's \<open>patientId\<close>
  is not accepted as the id of a patient document, and returns \<open>true\<close> otherwise.
\<close>

theorem updateScreeningReview_partial_failure:
  assumes "doc ''screenings'' (Some screeningId) = Inr (c, i)"
    and "nextFault w = None"
    and "map_of (colls w c) i = Some d"
    and "updateScreeningReview screeningId reviewStatus doctorComments doctorId w = (r, w')"
  shows "(\<exists>d'. map_of (colls w' c) i = Some d'
            \<and> d' ''reviewStatus'' = Some reviewStatus
            \<and> d' ''doctorComments'' = Some doctorComments
            \<and> d' ''doctorId'' = Some doctorId
            \<and> d' ''status'' = Some (VStr ''Reviewed''))
     \<and> (\<exists>later. calls w' = calls w
                    @ \<lparr>fn = UpdateDoc, path = c, target = Some i, rejected = None\<rparr> # later
            \<and> length later \<le> 4
            \<and> list_all (\<lambda>k. fn k = GetDoc \<or> (fn k = AddDoc \<and> path k = [''notifications'']))
                 later
            \<and> list_all (\<lambda>k. rejected k = None) (butlast later)
            \<and> (\<forall>e. later \<noteq> [] \<and> rejected (last later) = Some e \<longrightarrow> r = Inl e)
            \<and> (list_all (\<lambda>k. rejected k = None) later \<longrightarrow>
                  (case doc ''patients'' (d ''patientId'') of
                     Inl e \<Rightarrow> r = Inl e
                   | Inr patientRef \<Rightarrow> r = Inr True)))"
proof -
  let ?d' = "d ++ reviewFields reviewStatus doctorComments doctorId (serverClock w)"
  note run = updateScreeningReview_run [OF assms]
  from run have stored: "map_of (colls w' c) i = Some ?d'" by (rule conjunct1)
  from run [THEN conjunct2]
  obtain later where L: "calls w' = calls w
                   @ \<lparr>fn = UpdateDoc, path = c, target = Some i, rejected = None\<rparr> # later
          \<and> length later \<le> 4 \<and> list_all after_review later \<and> fits r later
          \<and> (list_all served later \<longrightarrow>
                (case doc ''patients'' (?d' ''patientId'') of
                   Inl e \<Rightarrow> r = Inl e
                 | Inr patientRef \<Rightarrow> r = Inr True))" ..
  note log = L [THEN conjunct1] and len = L [THEN conjunct2, THEN conjunct1]
    and kinds = L [THEN conjunct2, THEN conjunct2, THEN conjunct1]
    and fit = L [THEN conjunct2, THEN conjunct2, THEN conjunct2, THEN conjunct1]
    and outcome = L [THEN conjunct2, THEN conjunct2, THEN conjunct2, THEN conjunct2]
  from kinds have kinds':
    "list_all (\<lambda>k. fn k = GetDoc \<or> (fn k = AddDoc \<and> path k = [''notifications''])) later"
    by (simp add: list_all_iff after_review_def)
  from fit have before: "list_all (\<lambda>k. rejected k = None) (butlast later)"
    by (cases r) (simp_all add: list_all_iff served_def in_set_butlastD)
  have passed: "r = Inl e" if "later \<noteq> [] \<and> rejected (last later) = Some e" for e
    using fit that by (intro fits_rejected [of r later e]) simp_all
  have pid: "?d' ''patientId'' = d ''patientId''"
    by (simp add: reviewFields_def map_add_def)
  have device: "(case doc ''patients'' (d ''patientId'') of
                     Inl e \<Rightarrow> r = Inl e
                   | Inr patientRef \<Rightarrow> r = Inr True)"
    if "list_all (\<lambda>k. rejected k = None) later"
  proof -
    from that have "list_all served later"
      by (simp add: list_all_iff served_def)
    with outcome show ?thesis
      unfolding pid by (rule mp)
  qed
  show ?thesis
  proof (intro conjI)
    show "\<exists>d'. map_of (colls w' c) i = Some d'
            \<and> d' ''reviewStatus'' = Some reviewStatus
            \<and> d' ''doctorComments'' = Some doctorComments
            \<and> d' ''doctorId'' = Some doctorId
            \<and> d' ''status'' = Some (VStr ''Reviewed'')"
    proof (rule exI [of _ ?d'], intro conjI)
      show "map_of (colls w' c) i = Some ?d'" by (rule stored)
    qed (simp_all add: reviewFields_def)
    show "\<exists>later. calls w' = calls w
                    @ \<lparr>fn = UpdateDoc, path = c, target = Some i, rejected = None\<rparr> # later
            \<and> length later \<le> 4
            \<and> list_all (\<lambda>k. fn k = GetDoc \<or> (fn k = AddDoc \<and> path k = [''notifications'']))
                 later
            \<and> list_all (\<lambda>k. rejected k = None) (butlast later)
            \<and> (\<forall>e. later \<noteq> [] \<and> rejected (last later) = Some e \<longrightarrow> r = Inl e)
            \<and> (list_all (\<lambda>k. rejected k = None) later \<longrightarrow>
                  (case doc ''patients'' (d ''patientId'') of
                     Inl e \<Rightarrow> r = Inl e
                   | Inr patientRef \<Rightarrow> r = Inr True))"
      by (rule exI [of _ later], intro conjI allI impI) (fact log len kinds' before passed device)+
  qed
qed

theorem updateScreeningReview_partial_failure_witness:
  "doc ''screenings'' (Some (VStr ''s1'')) = Inr ([''screenings''], ''s1'')
   \<and> nextFault faulty_world = None
   \<and> (\<exists>d. map_of (colls faulty_world [''screenings'']) ''s1'' = Some d
          \<and> d ''status'' = Some (VStr ''Uploaded''))
   \<and> fst (updateScreeningReview (VStr ''s1'') (VStr ''Normal'') (VStr ''No lesion seen'')
             (VStr ''d1'') faulty_world) = Inl (FirestoreError ''unavailable'')
   \<and> (\<exists>d'. map_of (colls (snd (updateScreeningReview (VStr ''s1'') (VStr ''Normal'')
                 (VStr ''No lesion seen'') (VStr ''d1'') faulty_world)) [''screenings'']) ''s1''
               = Some d'
          \<and> d' ''reviewStatus'' = Some (VStr ''Normal'')
          \<and> d' ''doctorComments'' = Some (VStr ''No lesion seen'')
          \<and> d' ''doctorId'' = Some (VStr ''d1'')
          \<and> d' ''status'' = Some (VStr ''Reviewed''))
   \<and> nextFault unlinked_world = None
   \<and> (\<exists>d. map_of (colls unlinked_world [''screenings'']) ''s1'' = Some d
          \<and> d ''patientId'' = Some (VNum 7))
   \<and> doc ''patients'' (Some (VNum 7)) = Inl TypeError
   \<and> list_all (\<lambda>k. rejected k = None)
        (calls (snd (updateScreeningReview (VStr ''s1'') (VStr ''Normal'') (VStr ''No lesion seen'')
                       (VStr ''d1'') unlinked_world)))
   \<and> fst (updateScreeningReview (VStr ''s1'') (VStr ''Normal'') (VStr ''No lesion seen'')
             (VStr ''d1'') unlinked_world) = Inl TypeError
   \<and> (\<exists>d'. map_of (colls (snd (updateScreeningReview (VStr ''s1'') (VStr ''Normal'')
                 (VStr ''No lesion seen'') (VStr ''d1'') unlinked_world)) [''screenings'']) ''s1''
               = Some d'
          \<and> d' ''status'' = Some (VStr ''Reviewed''))"
proof -
  let ?run = "updateScreeningReview (VStr ''s1'') (VStr ''Normal'') (VStr ''No lesion seen'')
                (VStr ''d1'') faulty_world"
  let ?run2 = "updateScreeningReview (VStr ''s1'') (VStr ''Normal'') (VStr ''No lesion seen'')
                (VStr ''d1'') unlinked_world"
  let ?d = "[''patientId'' \<mapsto> VStr ''p1'', ''healthcareWorkerId'' \<mapsto> VStr ''h1'',
             ''imageUrl'' \<mapsto> VStr ''https://cdn.example/image/upload/v1/a.jpg'',
             ''status'' \<mapsto> VStr ''Uploaded'']"
  let ?d2 = "[''patientId'' \<mapsto> VNum 7, ''healthcareWorkerId'' \<mapsto> VStr ''h1'',
              ''status'' \<mapsto> VStr ''Uploaded'']"
  have h1: "doc ''screenings'' (Some (VStr ''s1'')) = Inr ([''screenings''], ''s1'')"
    by (simp add: doc_def split_def)
  have h2: "nextFault faulty_world = None"
    by (simp add: faulty_world_def demo_world_def nextFault_def)
  have h3: "map_of (colls faulty_world [''screenings'']) ''s1'' = Some ?d"
    by (simp add: faulty_world_def demo_world_def)
  have h4: "?run = (fst ?run, snd ?run)"
    by simp
  have g2: "nextFault unlinked_world = None"
    by (simp add: unlinked_world_def demo_world_def nextFault_def)
  have g3: "map_of (colls unlinked_world [''screenings'']) ''s1'' = Some ?d2"
    by (simp add: unlinked_world_def demo_world_def)
  have g4: "?run2 = (fst ?run2, snd ?run2)"
    by simp
  have refused: "doc ''patients'' (Some (VNum 7)) = Inl TypeError"
    by (simp add: doc_def)
  have empty: "calls faulty_world = []" "calls unlinked_world = []"
    by (simp_all add: faulty_world_def unlinked_world_def demo_world_def)
  have log1: "tl (calls (snd ?run)) \<noteq> []"
    "rejected (last (tl (calls (snd ?run)))) = Some (FirestoreError ''unavailable'')"
    by code_simp+
  have log2: "list_all (\<lambda>k. rejected k = None) (calls (snd ?run2))"
    by code_simp
  note t = updateScreeningReview_partial_failure [OF h1 h2 h3 h4]
  note u = updateScreeningReview_partial_failure [OF h1 g2 g3 g4]
  from t [THEN conjunct2]
  obtain later where L: "calls (snd ?run) = calls faulty_world
                    @ \<lparr>fn = UpdateDoc, path = [''screenings''], target = Some ''s1'',
                        rejected = None\<rparr> # later
            \<and> length later \<le> 4
            \<and> list_all (\<lambda>k. fn k = GetDoc \<or> (fn k = AddDoc \<and> path k = [''notifications'']))
                 later
            \<and> list_all (\<lambda>k. rejected k = None) (butlast later)
            \<and> (\<forall>e. later \<noteq> [] \<and> rejected (last later) = Some e \<longrightarrow> fst ?run = Inl e)
            \<and> (list_all (\<lambda>k. rejected k = None) later \<longrightarrow>
                  (case doc ''patients'' (?d ''patientId'') of
                     Inl e \<Rightarrow> fst ?run = Inl e
                   | Inr patientRef \<Rightarrow> fst ?run = Inr True))" ..
  from L [THEN conjunct1] have "later = tl (calls (snd ?run))"
    unfolding empty by simp
  with log1 have "later \<noteq> [] \<and> rejected (last later) = Some (FirestoreError ''unavailable'')"
    by simp
  with L [THEN conjunct2, THEN conjunct2, THEN conjunct2, THEN conjunct2, THEN conjunct1]
  have failed: "fst ?run = Inl (FirestoreError ''unavailable'')"
    by blast
  from u [THEN conjunct2]
  obtain later2 where M: "calls (snd ?run2) = calls unlinked_world
                    @ \<lparr>fn = UpdateDoc, path = [''screenings''], target = Some ''s1'',
                        rejected = None\<rparr> # later2
            \<and> length later2 \<le> 4
            \<and> list_all (\<lambda>k. fn k = GetDoc \<or> (fn k = AddDoc \<and> path k = [''notifications'']))
                 later2
            \<and> list_all (\<lambda>k. rejected k = None) (butlast later2)
            \<and> (\<forall>e. later2 \<noteq> [] \<and> rejected (last later2) = Some e \<longrightarrow> fst ?run2 = Inl e)
            \<and> (list_all (\<lambda>k. rejected k = None) later2 \<longrightarrow>
                  (case doc ''patients'' (?d2 ''patientId'') of
                     Inl e \<Rightarrow> fst ?run2 = Inl e
                   | Inr patientRef \<Rightarrow> fst ?run2 = Inr True))" ..
  from M [THEN conjunct1] log2 have "list_all (\<lambda>k. rejected k = None) later2"
    unfolding empty by simp
  with M [THEN conjunct2, THEN conjunct2, THEN conjunct2, THEN conjunct2, THEN conjunct2]
  have "(case doc ''patients'' (?d2 ''patientId'') of
                     Inl e \<Rightarrow> fst ?run2 = Inl e
                   | Inr patientRef \<Rightarrow> fst ?run2 = Inr True)"
    by (rule mp)
  then have thrown: "fst ?run2 = Inl TypeError"
    by (simp add: refused)
  from u [THEN conjunct1] have kept: "\<exists>d'. map_of (colls (snd ?run2) [''screenings'']) ''s1'' = Some d'
          \<and> d' ''status'' = Some (VStr ''Reviewed'')"
    by (elim exE conjE) (intro exI conjI, assumption+)
  from t [THEN conjunct1] h1 h2 h3 failed g2 g3 refused log2 thrown kept show ?thesis
    by simp
qed

subsection \<open>What the create operations store\<close>

lemma addDoc_served:
  assumes "nextFault w = None" and "map_of (colls w c) (idSource w (idCount w)) = None"
  shows "addDoc c data w =
           (Inr (c, idSource w (idCount w)),
            logCall AddDoc c (Some (idSource w (idCount w))) None
              (w\<lparr>idCount := Suc (idCount w),
                 colls := (colls w)(c := AList.update (idSource w (idCount w))
                                          (data (serverClock w)) (colls w c))\<rparr>))"
  using assms by (simp add: addDoc_def Let_def)

lemma addDoc_then:
  assumes "nextFault w = None" and "map_of (colls w c) (idSource w (idCount w)) = None"
    and "\<And>x. leaves c (k x)"
  shows "map_of (colls (snd (await (addDoc c data) k w)) c) (idSource w (idCount w))
           = Some (data (serverClock w))"
proof -
  let ?new = "idSource w (idCount w)"
  let ?w1 = "logCall AddDoc c (Some ?new) None
              (w\<lparr>idCount := Suc (idCount w),
                 colls := (colls w)(c := AList.update ?new (data (serverClock w)) (colls w c))\<rparr>)"
  have "await (addDoc c data) k w = k (c, ?new) ?w1"
    by (simp add: await_def addDoc_served [OF assms(1,2)])
  moreover have "colls (snd (k (c, ?new) ?w1)) c = colls ?w1 c"
    using assms(3) [of "(c, ?new)"] by (simp add: leaves_def)
  ultimately show ?thesis
    by (simp add: logCall_def update_conv')
qed

lemma Timestamp_now_await: "await Timestamp_now k w = k (clientClock w) w"
  by (simp add: await_def Timestamp_now_def)

text \<open>
  C5, as the code has it. When the backend serves the creating call and the new id is
  free, the stored record is the caller's data plus the timestamps and plus the values
  the code itself fixes: \<open>createAppointment\<close> sets \<open>type\<close> to \<open>screening\<close>;
  \<open>createDoctorAppointment\<close> sets \<open>type\<close> to \<open>doctor\<close> and \<open>status\<close> to \<open>Pending\<close>, over
  whatever the caller gave under these names; \<open>createNotification\<close> stores its five
  arguments with \<open>read\<close> set to \<open>false\<close>. \<open>savePatient\<close> and \<open>createScreeningRecord\<close> add
  nothing but \<open>createdAt\<close> and \<open>updatedAt\<close>. \<open>updateScreeningReview\<close> sets \<open>status\<close> to
  \<open>Reviewed\<close> in the screening it updates.
\<close>

theorem create_operations_store:
  assumes "nextFault w = None"
    and "\<And>c. map_of (colls w c) (idSource w (idCount w)) = None"
  shows "map_of (colls (snd (savePatient patientData w)) [''patients'']) (idSource w (idCount w))
           = Some (patientData(''createdAt'' \<mapsto> clientClock w, ''updatedAt'' \<mapsto> clientClock w))
     \<and> map_of (colls (snd (createScreeningRecord screeningData w)) [''screenings''])
           (idSource w (idCount w))
           = Some (screeningData(''createdAt'' \<mapsto> serverClock w, ''updatedAt'' \<mapsto> serverClock w))
     \<and> map_of (colls (snd (createAppointment appointmentData w)) [''appointments''])
           (idSource w (idCount w))
           = Some (appointmentData(''type'' \<mapsto> VStr ''screening'',
                     ''createdAt'' \<mapsto> serverClock w, ''updatedAt'' \<mapsto> serverClock w))
     \<and> map_of (colls (snd (createDoctorAppointment appointmentData w)) [''appointments''])
           (idSource w (idCount w))
           = Some (appointmentData(''type'' \<mapsto> VStr ''doctor'', ''status'' \<mapsto> VStr ''Pending'',
                     ''createdAt'' \<mapsto> serverClock w, ''updatedAt'' \<mapsto> serverClock w))
     \<and> map_of (colls (snd (createNotification recipientId type title message data w))
             [''notifications'']) (idSource w (idCount w))
           = Some [''recipientId'' \<mapsto> recipientId, ''type'' \<mapsto> type, ''title'' \<mapsto> title,
                   ''message'' \<mapsto> message, ''data'' \<mapsto> data, ''read'' \<mapsto> VBool False,
                   ''createdAt'' \<mapsto> serverClock w]
     \<and> (\<forall>c i d. doc ''screenings'' (Some screeningId) = Inr (c, i) \<and> map_of (colls w c) i = Some d
           \<longrightarrow> (\<exists>d'. map_of (colls (snd (updateScreeningReview screeningId reviewStatus
                          doctorComments doctorId w)) c) i = Some d'
                     \<and> d' ''status'' = Some (VStr ''Reviewed'')))"
proof (intro conjI allI impI)
  note fresh = assms(2)
  show "map_of (colls (snd (savePatient patientData w)) [''patients'']) (idSource w (idCount w))
           = Some (patientData(''createdAt'' \<mapsto> clientClock w, ''updatedAt'' \<mapsto> clientClock w))"
    unfolding savePatient_def Timestamp_now_await Let_def
    by (rule addDoc_then [OF assms(1) fresh]) (rule leaves_resolve)
  show "map_of (colls (snd (createScreeningRecord screeningData w)) [''screenings''])
           (idSource w (idCount w))
           = Some (screeningData(''createdAt'' \<mapsto> serverClock w, ''updatedAt'' \<mapsto> serverClock w))"
    unfolding createScreeningRecord_def
    by (rule addDoc_then [OF assms(1) fresh])
       (intro leaves_await leaves_if_truthy leaves_getPatient leaves_case_option
          leaves_createNotification leaves_resolve, simp)
  show "map_of (colls (snd (createAppointment appointmentData w)) [''appointments''])
           (idSource w (idCount w))
           = Some (appointmentData(''type'' \<mapsto> VStr ''screening'',
                     ''createdAt'' \<mapsto> serverClock w, ''updatedAt'' \<mapsto> serverClock w))"
    unfolding createAppointment_def
    by (rule addDoc_then [OF assms(1) fresh]) (rule leaves_resolve)
  show "map_of (colls (snd (createDoctorAppointment appointmentData w)) [''appointments''])
           (idSource w (idCount w))
           = Some (appointmentData(''type'' \<mapsto> VStr ''doctor'', ''status'' \<mapsto> VStr ''Pending'',
                     ''createdAt'' \<mapsto> serverClock w, ''updatedAt'' \<mapsto> serverClock w))"
    unfolding createDoctorAppointment_def
    by (rule addDoc_then [OF assms(1) fresh])
       (intro leaves_await leaves_if_truthy leaves_createNotification leaves_resolve, simp_all)
  show "map_of (colls (snd (createNotification recipientId type title message data w))
             [''notifications'']) (idSource w (idCount w))
           = Some [''recipientId'' \<mapsto> recipientId, ''type'' \<mapsto> type, ''title'' \<mapsto> title,
                   ''message'' \<mapsto> message, ''data'' \<mapsto> data, ''read'' \<mapsto> VBool False,
                   ''createdAt'' \<mapsto> serverClock w]"
    unfolding createNotification_def
    by (rule addDoc_then [OF assms(1) fresh]) (rule leaves_resolve)
next
  fix c i d
  let ?run = "updateScreeningReview screeningId reviewStatus doctorComments doctorId w"
  assume a: "doc ''screenings'' (Some screeningId) = Inr (c, i) \<and> map_of (colls w c) i = Some d"
  have run: "?run = (fst ?run, snd ?run)" by simp
  from updateScreeningReview_run [OF a [THEN conjunct1] assms(1) a [THEN conjunct2] run]
  have "map_of (colls (snd ?run) c) i
           = Some (d ++ reviewFields reviewStatus doctorComments doctorId (serverClock w))"
    by (rule conjunct1)
  then show "\<exists>d'. map_of (colls (snd ?run) c) i = Some d' \<and> d' ''status'' = Some (VStr ''Reviewed'')"
    by (simp add: reviewFields_def)
qed

theorem create_operations_store_witness:
  "nextFault demo_world = None
   \<and> map_of (colls demo_world [''appointments'']) ''auto0'' = None
   \<and> map_of (colls (snd (createDoctorAppointment demo_request demo_world)) [''appointments''])
         ''auto0''
       = Some (demo_request(''type'' \<mapsto> VStr ''doctor'', ''status'' \<mapsto> VStr ''Pending'',
                 ''createdAt'' \<mapsto> VTime 1762128000 0, ''updatedAt'' \<mapsto> VTime 1762128000 0))"
proof -
  have h1: "nextFault demo_world = None"
    by (simp add: demo_world_def nextFault_def)
  have new: "idSource demo_world (idCount demo_world) = ''auto0''"
    by (simp add: demo_world_def show_nat.simps digit_char_def)
  have h2: "map_of (colls demo_world c) (idSource demo_world (idCount demo_world)) = None" for c
    unfolding new by (simp add: demo_world_def)
  have clock: "serverClock demo_world = VTime 1762128000 0"
    by (simp add: demo_world_def)
  note t = create_operations_store [OF h1 h2, where appointmentData = demo_request,
      THEN conjunct2, THEN conjunct2, THEN conjunct2, THEN conjunct1]
  from t h1 h2 [of "[''appointments'']"] show ?thesis
    unfolding new clock by simp
qed

text \<open>
  C5 as stated fails: a caller that asks for a doctor appointment with status \<open>Accepted\<close>
  and type \<open>follow-up\<close> gets a record with status \<open>Pending\<close> and type \<open>doctor\<close>, which is
  not its data plus timestamps.
\<close>

theorem createDoctorAppointment_imposes_fields:
  "demo_request ''status'' = Some (VStr ''Accepted'')
   \<and> demo_request ''type'' = Some (VStr ''follow-up'')
   \<and> (case map_of (colls (snd (createDoctorAppointment demo_request demo_world))
                 [''appointments'']) ''auto0'' of
          None \<Rightarrow> None
        | Some stored \<Rightarrow> stored ''status'') = Some (VStr ''Pending'')
   \<and> (case map_of (colls (snd (createDoctorAppointment demo_request demo_world))
                 [''appointments'']) ''auto0'' of
          None \<Rightarrow> None
        | Some stored \<Rightarrow> stored ''type'') = Some (VStr ''doctor'')
   \<and> map_of (colls (snd (createDoctorAppointment demo_request demo_world)) [''appointments''])
         ''auto0''
       \<noteq> Some (demo_request(''createdAt'' \<mapsto> serverClock demo_world,
                  ''updatedAt'' \<mapsto> serverClock demo_world))"
proof -
  let ?stored = "map_of (colls (snd (createDoctorAppointment demo_request demo_world))
                   [''appointments'']) ''auto0''"
  have s: "(case ?stored of None \<Rightarrow> None | Some stored \<Rightarrow> stored ''status'')
             = Some (VStr ''Pending'')"
    by code_simp
  have t: "(case ?stored of None \<Rightarrow> None | Some stored \<Rightarrow> stored ''type'')
             = Some (VStr ''doctor'')"
    by code_simp
  have a: "demo_request ''status'' = Some (VStr ''Accepted'')"
    by (simp add: demo_request_def)
  have b: "demo_request ''type'' = Some (VStr ''follow-up'')"
    by (simp add: demo_request_def)
  have "?stored \<noteq> Some (demo_request(''createdAt'' \<mapsto> serverClock demo_world,
                  ''updatedAt'' \<mapsto> serverClock demo_world))"
  proof
    assume "?stored = Some (demo_request(''createdAt'' \<mapsto> serverClock demo_world,
                  ''updatedAt'' \<mapsto> serverClock demo_world))"
    with s have "demo_request ''status'' = Some (VStr ''Pending'')" by simp
    with a show False by simp
  qed
  with s t a b show ?thesis by simp
qed

subsection \<open>The calls each operation makes\<close>














lemma builds_resolve: "source q = [name] \<Longrightarrow> builds name (resolve q)"
  by (simp add: builds_def resolve_def)






















































































subsection \<open>The preview URL\<close>

lemma concat_items:
  "ps \<noteq> [] \<Longrightarrow> concat (map (\<lambda>p. p @ [c]) ps) = join [c] ps @ [c]"
  by (induction "[c]" ps rule: join.induct) simp_all

lemma endsWith_snoc: "endsWith (xs @ [c]) [c]"
  by (simp add: endsWith_def suffix_def)

lemma slice_snoc: "slice (xs @ [c]) 0 (- 1) = xs"
  by (simp add: slice_def Let_def)

lemma strip_items:
  "(if endsWith (concat (map (\<lambda>p. p @ [c]) ps)) [c]
    then slice (concat (map (\<lambda>p. p @ [c]) ps)) 0 (- 1)
    else concat (map (\<lambda>p. p @ [c]) ps)) = join [c] ps"
proof (cases "ps = []")
  case True
  then show ?thesis by (simp add: endsWith_def)
next
  case False
  then show ?thesis by (simp add: concat_items endsWith_snoc slice_snoc)
qed

lemma transformationString_items:
  "transformationString t =
     (let s = concat (map (\<lambda>p. p @ '','')
                (map (\<lambda>(name, v). name @ '':'' @ show_int v) (spec_parameters t)))
      in if endsWith s '','' then slice s 0 (- 1) else s)"
  by (simp add: transformationString_def spec_parameters_def Let_def)

lemma transformationString_spec: "transformationString t = spec_transformation t"
  unfolding transformationString_items spec_transformation_def Let_def
  by (rule strip_items)

lemma join_empty:
  "join sep ps = [] \<longleftrightarrow> ps = [] \<or> (sep = [] \<and> (\<forall>p \<in> set ps. p = [])) \<or> ps = [[]]"
  by (induction sep ps rule: join.induct) auto

lemma spec_transformation_empty:
  "spec_transformation t = [] \<longleftrightarrow>
     brightness t = 0 \<and> contrast t = 0 \<and> saturation t = 0 \<and> sharpness t = 0"
  by (auto simp: spec_transformation_def spec_parameters_def join_empty)


lemma occurrences_append_le: "occurrences sep ys \<le> occurrences sep (xs @ ys)"
proof (induction xs)
  case Nil
  show ?case by simp
next
  case (Cons x xs)
  then show ?case
    by (cases "xs @ ys") auto
qed

lemma occurrences_at_start:
  assumes "sep \<noteq> []"
  shows "1 \<le> occurrences sep (sep @ b)"
proof -
  from assms obtain c cs where "sep @ b = c # cs" by (cases sep) auto
  moreover have "prefix sep (sep @ b)" by simp
  ultimately show ?thesis by simp
qed

lemma splitAcc_none:
  "sep \<noteq> [] \<Longrightarrow> occurrences sep s = 0 \<Longrightarrow> splitAcc sep acc s = [acc @ s]"
  by (induction s arbitrary: acc) (auto split: if_splits)

lemma splitAcc_once:
  assumes "sep \<noteq> []" and "occurrences sep (a @ sep @ b) = 1"
  shows "splitAcc sep acc (a @ sep @ b) = [acc @ a, b]"
  using assms(2)
proof (induction a arbitrary: acc)
  case Nil
  from assms(1) obtain c cs where sep: "sep = c # cs" by (cases sep) auto
  from Nil have pre: "prefix sep (c # cs @ b)" and rest: "occurrences sep (cs @ b) = 0"
    by (simp_all add: sep)
  from rest occurrences_append_le [of sep b cs] have "occurrences sep b = 0" by simp
  with assms(1) have "splitAcc sep [] b = [b]"
    by (simp add: splitAcc_none)
  with pre show ?case
    by (simp add: sep)
next
  case (Cons x a)
  from occurrences_at_start [OF assms(1), of b] occurrences_append_le [of sep "sep @ b" a]
  have "1 \<le> occurrences sep (a @ sep @ b)" by simp
  with Cons.prems have np: "\<not> prefix sep (x # a @ sep @ b)"
    and one: "occurrences sep (a @ sep @ b) = 1"
    by (auto split: if_splits)
  from Cons.IH [OF one, of "acc @ [x]"] np show ?case by simp
qed

lemma occurrences_split:
  assumes "sep \<noteq> []" and "occurrences sep s = 1"
  shows "\<exists>a b. s = a @ sep @ b"
  using assms(2)
proof (induction s)
  case Nil
  with assms(1) show ?case by simp
next
  case (Cons c cs)
  show ?case
  proof (cases "prefix sep (c # cs)")
    case True
    then obtain b where "c # cs = sep @ b" by (auto simp: prefix_def)
    then have "c # cs = [] @ sep @ b" by simp
    then show ?thesis by blast
  next
    case False
    with Cons.prems have "occurrences sep cs = 1" by simp
    from Cons.IH [OF this] obtain a b where "cs = a @ sep @ b" by blast
    then have "c # cs = (c # a) @ sep @ b" by simp
    then show ?thesis by blast
  qed
qed

lemma updatePreview_url:
  assumes "originalImageUrl st \<noteq> []"
  shows "(\<forall>a b. originalImageUrl st = a @ ''/upload/'' @ b
             \<and> occurrences ''/upload/'' (originalImageUrl st) = 1 \<and> hasTransformations st
           \<longrightarrow> previewUrl (updatePreview st)
                 = a @ ''/upload/'' @ spec_transformation (transformations st) @ ''/'' @ b)
     \<and> (\<not> hasTransformations st \<or> occurrences ''/upload/'' (originalImageUrl st) = 0
           \<longrightarrow> previewUrl (updatePreview st) = originalImageUrl st)"
proof (intro conjI allI impI)
  fix a b
  assume h: "originalImageUrl st = a @ ''/upload/'' @ b
             \<and> occurrences ''/upload/'' (originalImageUrl st) = 1 \<and> hasTransformations st"
  note eq = h [THEN conjunct1] and one = h [THEN conjunct2, THEN conjunct1]
    and ht = h [THEN conjunct2, THEN conjunct2]
  from ht have ts: "spec_transformation (transformations st) \<noteq> []"
    by (simp add: spec_transformation_empty hasTransformations_def)
  have ne: "''/upload/'' \<noteq> []" by simp
  from splitAcc_once [OF ne one [unfolded eq], of "[]"]
  have "splitAcc ''/upload/'' [] (originalImageUrl st) = [a, b]"
    unfolding eq by simp
  then have parts: "split (originalImageUrl st) ''/upload/'' = [a, b]"
    by (simp add: split_def)
  show "previewUrl (updatePreview st)
          = a @ ''/upload/'' @ spec_transformation (transformations st) @ ''/'' @ b"
    using assms ts
    by (simp add: updatePreview_def transformationString_spec parts Let_def)
next
  assume h: "\<not> hasTransformations st \<or> occurrences ''/upload/'' (originalImageUrl st) = 0"
  show "previewUrl (updatePreview st) = originalImageUrl st"
  proof (cases "hasTransformations st")
    case False
    then have "spec_transformation (transformations st) = []"
      by (simp add: spec_transformation_empty hasTransformations_def)
    then show ?thesis
      using assms by (simp add: updatePreview_def transformationString_spec Let_def)
  next
    case True
    with h have "occurrences ''/upload/'' (originalImageUrl st) = 0" by simp
    then have "split (originalImageUrl st) ''/upload/'' = [originalImageUrl st]"
      by (simp add: split_def splitAcc_none)
    then show ?thesis
      using assms by (simp add: updatePreview_def Let_def)
  qed
qed

lemma updatePreview_fields:
  "transformations (updatePreview st) = transformations st
   \<and> originalImageUrl (updatePreview st) = originalImageUrl st"
  by (simp add: updatePreview_def Let_def)

lemma updatePreview_idem: "updatePreview (updatePreview st) = updatePreview st"
  by (simp add: updatePreview_def Let_def)

lemma updatePreview_empty: "originalImageUrl st = [] \<Longrightarrow> updatePreview st = st"
  by (simp add: updatePreview_def)

lemma reachable_in_step: "reachable st \<Longrightarrow> updatePreview st = st"
proof (induction rule: reachable.induct)
  case initial
  show ?case by (simp add: updatePreview_empty initialScreen_def)
qed (simp_all add: fetchScreeningData_def setTransformations_def resetTransformations_def
      updatePreview_idem)

lemma reachable_empty_url:
  "reachable st \<Longrightarrow> originalImageUrl st = [] \<Longrightarrow> previewUrl st = []"
proof (induction rule: reachable.induct)
  case initial
  show ?case by (simp add: initialScreen_def)
next
  case (fetched st imageUrl)
  then show ?case
    by (simp add: fetchScreeningData_def updatePreview_def Let_def split: if_splits)
qed (simp_all add: setTransformations_def resetTransformations_def updatePreview_def Let_def
      split: if_splits)


lemma setTransformations_twice:
  "setTransformations t' (setTransformations t st) = setTransformations t' st"
  by (simp add: setTransformations_def updatePreview_def Let_def)

lemma transformations_set: "transformations (setTransformations t st) = t"
  by (simp add: setTransformations_def updatePreview_fields)

lemma every_setting_reachable:
  assumes "reachable st"
  shows "reachable (setTransformations
           \<lparr>brightness = b, contrast = c, saturation = s, sharpness = sh\<rparr> st)"
proof -
  let ?t0 = "transformations st"
  let ?s1 = "setTransformations (?t0\<lparr>brightness := b\<rparr>) st"
  let ?s2 = "setTransformations ((transformations ?s1)\<lparr>contrast := c\<rparr>) ?s1"
  let ?s3 = "setTransformations ((transformations ?s2)\<lparr>saturation := s\<rparr>) ?s2"
  let ?s4 = "setTransformations ((transformations ?s3)\<lparr>sharpness := sh\<rparr>) ?s3"
  have "reachable ?s1" using assms by (rule reachable.brightness_moved)
  then have "reachable ?s2" by (rule reachable.contrast_moved)
  then have "reachable ?s3" by (rule reachable.saturation_moved)
  then have "reachable ?s4" by (rule reachable.sharpness_moved)
  moreover have "?s4 = setTransformations
           \<lparr>brightness = b, contrast = c, saturation = s, sharpness = sh\<rparr> st"
    by (cases "transformations st") (simp add: setTransformations_twice transformations_set)
  ultimately show ?thesis by simp
qed

text \<open>
  C3. In every state the screen can reach (and every original URL with every setting of
  the sliders is reached, by \<open>every_setting_reachable\<close>), the preview URL is built from the
  original URL by concatenation alone. When \<open>/upload/\<close> occurs exactly once in the
  original URL, so that the URL is \<open>a/upload/b\<close>, and some slider is not at 0, the
  preview URL is \<open>a/upload/\<close>, then the transformation string (the parameters that are
  not 0, in the order \<open>e_brightness\<close>, \<open>e_contrast\<close>, \<open>e_saturation\<close>, \<open>e_sharpen\<close>, each as
  \<open>name:value\<close>, separated by commas), then \<open>/\<close> and \<open>b\<close>. When all four sliders are at 0,
  or \<open>/upload/\<close> does not occur in the original URL, the preview URL is the original URL.
  The URL that \<open>handleConfirm\<close> saves is the preview URL.
\<close>

theorem preview_url_is_concatenation:
  assumes "reachable st"
  shows "(\<forall>a b. originalImageUrl st = a @ ''/upload/'' @ b
             \<and> occurrences ''/upload/'' (originalImageUrl st) = 1 \<and> hasTransformations st
           \<longrightarrow> previewUrl st
                 = a @ ''/upload/'' @ spec_transformation (transformations st) @ ''/'' @ b)
     \<and> (occurrences ''/upload/'' (originalImageUrl st) = 1
           \<longrightarrow> (\<exists>a b. originalImageUrl st = a @ ''/upload/'' @ b))
     \<and> (\<not> hasTransformations st \<or> occurrences ''/upload/'' (originalImageUrl st) = 0
           \<longrightarrow> previewUrl st = originalImageUrl st)
     \<and> finalImageUrl st = previewUrl st"
proof -
  from assms have sync: "updatePreview st = st"
    by (rule reachable_in_step)
  have first: "\<forall>a b. originalImageUrl st = a @ ''/upload/'' @ b
             \<and> occurrences ''/upload/'' (originalImageUrl st) = 1 \<and> hasTransformations st
           \<longrightarrow> previewUrl st
                 = a @ ''/upload/'' @ spec_transformation (transformations st) @ ''/'' @ b"
  proof (cases "originalImageUrl st = []")
    case True
    then show ?thesis by simp
  next
    case False
    from updatePreview_url [OF False, THEN conjunct1] show ?thesis
      unfolding sync .
  qed
  have parts: "occurrences ''/upload/'' (originalImageUrl st) = 1
           \<longrightarrow> (\<exists>a b. originalImageUrl st = a @ ''/upload/'' @ b)"
    by (intro impI occurrences_split) simp_all
  have unchanged: "\<not> hasTransformations st \<or> occurrences ''/upload/'' (originalImageUrl st) = 0
           \<longrightarrow> previewUrl st = originalImageUrl st"
  proof (cases "originalImageUrl st = []")
    case True
    with assms show ?thesis by (simp add: reachable_empty_url)
  next
    case False
    from updatePreview_url [OF False, THEN conjunct2] show ?thesis
      unfolding sync .
  qed
  have "finalImageUrl st = previewUrl st"
    using unchanged by (simp add: finalImageUrl_def)
  with first parts unchanged show ?thesis
    by (intro conjI)
qed

theorem preview_url_is_concatenation_witness:
  "reachable demo_screen
   \<and> originalImageUrl demo_screen = ''https://cdn.example/image/upload/v1/a.jpg''
   \<and> occurrences ''/upload/'' (originalImageUrl demo_screen) = 1
   \<and> transformations demo_screen
       = \<lparr>brightness = 20, contrast = 0, saturation = - 10, sharpness = 0\<rparr>
   \<and> previewUrl demo_screen
       = ''https://cdn.example/image/upload/e_brightness:20,e_saturation:-10/v1/a.jpg''
   \<and> finalImageUrl demo_screen = previewUrl demo_screen"
proof -
  have reach: "reachable demo_screen"
    unfolding demo_screen_def
    by (intro every_setting_reachable reachable.fetched reachable.initial)
  have url: "originalImageUrl demo_screen = ''https://cdn.example/image/upload/v1/a.jpg''"
    by code_simp
  have url': "originalImageUrl demo_screen = ''https://cdn.example/image'' @ ''/upload/'' @ ''v1/a.jpg''"
    unfolding url by simp
  have one: "occurrences ''/upload/'' (originalImageUrl demo_screen) = 1"
    by code_simp
  have t: "transformations demo_screen
       = \<lparr>brightness = 20, contrast = 0, saturation = - 10, sharpness = 0\<rparr>"
    by (simp add: demo_screen_def transformations_set)
  have some: "hasTransformations demo_screen"
    by (simp add: hasTransformations_def t)
  have ts: "spec_transformation \<lparr>brightness = 20, contrast = 0, saturation = - 10, sharpness = 0\<rparr>
      = ''e_brightness:20,e_saturation:-10''"
    by code_simp
  note main = preview_url_is_concatenation [OF reach]
  from main [THEN conjunct1, THEN spec, THEN spec, THEN mp, OF conjI [OF url' conjI [OF one some]]]
  have "previewUrl demo_screen
       = ''https://cdn.example/image/upload/e_brightness:20,e_saturation:-10/v1/a.jpg''"
    unfolding t ts by simp
  moreover note main [THEN conjunct2, THEN conjunct2, THEN conjunct2]
  ultimately show ?thesis
    using reach url one t by simp
qed

end
